(* ===== verification/Prelude.thy ===== *)
theory Prelude
  imports Main "HOL-Library.Word" "HOL-Library.Multiset"
begin

text \<open>
  What every component of the development shares: the ways a C program can leave its
  defined behaviour (as values), 32-bit \<^verbatim>\<open>int\<close> arithmetic with its wrap-around,
  NUL-terminated strings in fixed buffers, \<^verbatim>\<open>strtok\<close>, and the generic lemmas on
  lists that the component proofs use. The collection \<open>c_safe\<close> gathers the
  operations shown to stay within their arrays.
\<close>

unbundle bit_operations_syntax

named_theorems c_safe \<open>operations that access no array outside its bounds\<close>

section \<open>Abnormal outcomes\<close>

text \<open>
  A C function that would run into one of these returns it as \<open>Inl\<close>: an access outside
  an array, a NULL pointer used as a string, a call of \<^verbatim>\<open>exit(EXIT_FAILURE)\<close>, a system
  call that does not return yet (a full or empty message queue), a loop that never ends.
\<close>

datatype c_err = Out_Of_Bounds | Null_Pointer | Exit_Failure | Blocked | Diverges

type_synonym 'a c_res = "c_err + 'a"

fun c_bind :: "'a c_res \<Rightarrow> ('a \<Rightarrow> 'b c_res) \<Rightarrow> 'b c_res" where
  "c_bind (Inl e) f = Inl e"
| "c_bind (Inr x) f = f x"

lemma c_bind_Inr_iff: "c_bind r f = Inr y \<longleftrightarrow> (\<exists>x. r = Inr x \<and> f x = Inr y)"
  by (cases r) auto

lemma c_bind_Inl_iff: "c_bind r f = Inl e \<longleftrightarrow> r = Inl e \<or> (\<exists>x. r = Inr x \<and> f x = Inl e)"
  by (cases r) auto

text \<open>
  A computation that accesses no array outside its bounds, and whose value, when there is one,
  has a property. Computations are put together by \<open>in_bounds_bind\<close>.
\<close>

definition in_bounds :: "('a \<Rightarrow> bool) \<Rightarrow> 'a c_res \<Rightarrow> bool" where
  "in_bounds P r = (case r of Inr x \<Rightarrow> P x | Inl e \<Rightarrow> e \<noteq> Out_Of_Bounds)"

lemma in_bounds_simps [simp]:
  "in_bounds P (Inr x) = P x" "in_bounds P (Inl e) \<longleftrightarrow> e \<noteq> Out_Of_Bounds"
  by (simp_all add: in_bounds_def)

lemma in_bounds_bind:
  "in_bounds P r \<Longrightarrow> (\<And>x. r = Inr x \<Longrightarrow> P x \<Longrightarrow> in_bounds Q (f x)) \<Longrightarrow> in_bounds Q (c_bind r f)"
  by (cases r) auto

lemma in_bounds_iff:
  "in_bounds P r \<longleftrightarrow> r \<noteq> Inl Out_Of_Bounds \<and> (\<forall>x. r = Inr x \<longrightarrow> P x)"
  by (cases r) auto

section \<open>32-bit signed integers\<close>

text \<open>
  A C \<^verbatim>\<open>int\<close> is an \<open>int\<close> in the range of two's complement; \<open>wrap32\<close> is what
  the machine makes of a result outside it.
\<close>

definition wrap32 :: "int \<Rightarrow> int" where
  "wrap32 z = (z + 2147483648) mod 4294967296 - 2147483648"

definition in32 :: "int \<Rightarrow> bool" where
  "in32 z \<longleftrightarrow> -2147483648 \<le> z \<and> z \<le> 2147483647"

lemma wrap32_id [simp]: "in32 z \<Longrightarrow> wrap32 z = z"
  by (simp add: wrap32_def in32_def)

lemma in32_wrap32 [simp]: "in32 (wrap32 z)"
  using pos_mod_bound [of 4294967296 "z + 2147483648"]
        pos_mod_sign [of 4294967296 "z + 2147483648"]
  unfolding wrap32_def in32_def by linarith

lemma in32_0 [simp]: "in32 0"
  by (simp add: in32_def)

lemma wrap32_nonneg_small: "0 \<le> z \<Longrightarrow> z \<le> 2147483647 \<Longrightarrow> wrap32 z = z"
  by (simp add: in32_def)

lemma wrap32_mod: "wrap32 z mod 4294967296 = z mod 4294967296"
proof -
  have "(((z + 2147483648) mod 4294967296) - 2147483648) mod 4294967296
      = ((z + 2147483648) - 2147483648) mod 4294967296"
    by (rule mod_diff_left_eq)
  then show ?thesis by (simp add: wrap32_def)
qed

lemma wrap32_eq_iff: "wrap32 a = wrap32 b \<longleftrightarrow> a mod 4294967296 = b mod 4294967296"
proof
  assume "wrap32 a = wrap32 b"
  then show "a mod 4294967296 = b mod 4294967296" by (metis wrap32_mod)
next
  assume "a mod 4294967296 = b mod 4294967296"
  then have "(a + 2147483648) mod 4294967296 = (b + 2147483648) mod 4294967296"
    by (rule mod_add_cong) simp
  then show "wrap32 a = wrap32 b" by (simp add: wrap32_def)
qed

lemma wrap32_add_wrap: "wrap32 (wrap32 a + b) = wrap32 (a + b)"
  by (subst wrap32_eq_iff) (metis mod_add_cong wrap32_mod)

section \<open>C strings in buffers\<close>

abbreviation NUL :: char where
  "NUL \<equiv> CHR 0x00"

text \<open>
  \<open>cstr\<close> is the string a buffer holds (the characters before the first NUL), as
  \<^verbatim>\<open>strlen\<close>, \<^verbatim>\<open>strcmp\<close> and \<^verbatim>\<open>printf\<close> read it.
\<close>

definition cstr :: "char list \<Rightarrow> string" where
  "cstr buf = takeWhile (\<lambda>c. c \<noteq> NUL) buf"

definition terminated :: "char list \<Rightarrow> bool" where
  "terminated buf \<longleftrightarrow> NUL \<in> set buf"

lemma cstr_Nil [simp]: "cstr [] = []"
  by (simp add: cstr_def)

lemma cstr_Cons [simp]: "cstr (c # cs) = (if c = NUL then [] else c # cstr cs)"
  by (simp add: cstr_def)

lemma cstr_replicate_NUL [simp]: "cstr (replicate n NUL) = []"
  by (cases n) simp_all

lemma cstr_no_NUL [simp]: "NUL \<notin> set (cstr buf)"
  by (auto simp: cstr_def dest: set_takeWhileD)

lemma cstr_append_NUL [simp]: "NUL \<notin> set s \<Longrightarrow> cstr (s @ NUL # r) = s"
  unfolding cstr_def by (subst takeWhile_append2) auto

lemma cstr_idem [simp]: "cstr (cstr b) = cstr b"
  by (simp add: cstr_def takeWhile_idem)

lemma cstr_self: "NUL \<notin> set s \<Longrightarrow> cstr s = s"
  by (auto simp: cstr_def takeWhile_eq_all_conv)

lemma length_cstr_terminated: "terminated b \<Longrightarrow> length (cstr b) < length b"
  unfolding terminated_def cstr_def
  by (induction b) auto

text \<open>\<^verbatim>\<open>strcmp\<close>: the sign of the first difference, characters read as unsigned bytes.\<close>

fun strcmp :: "string \<Rightarrow> string \<Rightarrow> int" where
  "strcmp [] [] = 0"
| "strcmp [] (y # ys) = -1"
| "strcmp (x # xs) [] = 1"
| "strcmp (x # xs) (y # ys) =
     (if x = y then strcmp xs ys
      else if (of_char x :: nat) < of_char y then -1 else 1)"

lemma strcmp_0_iff [simp]: "strcmp a b = 0 \<longleftrightarrow> a = b"
  by (induction a b rule: strcmp.induct) auto

lemma of_char_nat_eq_iff: "(of_char x :: nat) = of_char y \<longleftrightarrow> x = y"
  by simp

lemma strcmp_antisym: "strcmp b a = - strcmp a b"
proof (induction a b rule: strcmp.induct)
  case (4 x xs y ys)
  then show ?case
    using of_char_nat_eq_iff [of x y] by (auto simp del: of_char_eq_iff)
qed auto

lemma strcmp_trans: "strcmp a b \<le> 0 \<Longrightarrow> strcmp b c \<le> 0 \<Longrightarrow> strcmp a c \<le> 0"
proof (induction a b arbitrary: c rule: strcmp.induct)
  case (2 y ys)
  then show ?case by (cases c) auto
next
  case (4 x xs y ys)
  then show ?case
    by (cases c) (auto split: if_splits)
qed (auto elim: strcmp.elims)

section \<open>Tokens\<close>

text \<open>
  One call of \<^verbatim>\<open>strtok\<close> on what is left of the string: skip delimiters, return the
  run of other characters and the rest behind the delimiter that is overwritten; \<open>None\<close>
  is the NULL that ends the loop.
\<close>

definition strtok :: "string \<Rightarrow> string \<Rightarrow> (string \<times> string) option" where
  "strtok delims s =
     (case dropWhile (\<lambda>c. c \<in> set delims) s of
        [] \<Rightarrow> None
      | c # cs \<Rightarrow>
          Some (takeWhile (\<lambda>c. c \<notin> set delims) (c # cs),
                drop 1 (dropWhile (\<lambda>c. c \<notin> set delims) (c # cs))))"

lemma length_dropWhile_le': "length (dropWhile P xs) \<le> length xs"
  by (induction xs) auto

lemma strtok_shorter:
  assumes "strtok d s = Some (t, r)"
  shows "length r < length s"
proof -
  obtain c cs where cs: "dropWhile (\<lambda>c. c \<in> set d) s = c # cs"
    and r: "r = drop 1 (dropWhile (\<lambda>c. c \<notin> set d) (c # cs))"
    using assms by (auto simp: strtok_def split: list.splits)
  have "length (c # cs) \<le> length s"
    using length_dropWhile_le' [of "\<lambda>c. c \<in> set d" s] cs by simp
  moreover have "length (dropWhile (\<lambda>c. c \<notin> set d) (c # cs)) \<le> length (c # cs)"
    by (rule length_dropWhile_le')
  ultimately show ?thesis by (auto simp: r)
qed

lemma strtok_token:
  assumes "strtok d s = Some (t, r)"
  shows "t \<noteq> [] \<and> set t \<inter> set d = {} \<and> set t \<subseteq> set s"
proof -
  obtain c cs where cs: "dropWhile (\<lambda>c. c \<in> set d) s = c # cs"
    and t: "t = takeWhile (\<lambda>c. c \<notin> set d) (c # cs)"
    using assms by (auto simp: strtok_def split: list.splits)
  have "c \<notin> set d" using cs by (metis dropWhile_eq_Cons_conv)
  moreover have "set (c # cs) \<subseteq> set s" using cs by (metis set_dropWhileD subsetI)
  ultimately show ?thesis
    using t by (auto dest: set_takeWhileD)
qed

section \<open>Lists\<close>

text \<open>The first element that satisfies a predicate, taken out of the list.\<close>

fun take_first :: "('a \<Rightarrow> bool) \<Rightarrow> 'a list \<Rightarrow> ('a \<times> 'a list) option" where
  "take_first p [] = None"
| "take_first p (x # xs) =
     (if p x then Some (x, xs)
      else map_option (\<lambda>(y, ys). (y, x # ys)) (take_first p xs))"

lemma take_first_None: "take_first p xs = None \<longleftrightarrow> (\<forall>x \<in> set xs. \<not> p x)"
  by (induction xs) auto

lemma take_first_Some:
  "take_first p xs = Some (y, zs) \<Longrightarrow>
   \<exists>as bs. xs = as @ y # bs \<and> zs = as @ bs \<and> p y \<and> (\<forall>a \<in> set as. \<not> p a)"
proof (induction xs arbitrary: zs)
  case (Cons x xs)
  show ?case
  proof (cases "p x")
    case True
    with Cons.prems show ?thesis by (intro exI [of _ "[]"] exI [of _ xs]) auto
  next
    case False
    with Cons.prems obtain zs' where t: "take_first p xs = Some (y, zs')" and zs: "zs = x # zs'"
      by auto
    from Cons.IH [OF t] obtain as bs where
      "xs = as @ y # bs" "zs' = as @ bs" "p y" "\<forall>a \<in> set as. \<not> p a" by blast
    with False zs show ?thesis by (intro exI [of _ "x # as"] exI [of _ bs]) auto
  qed
qed simp

lemma take_first_append:
  "\<forall>a \<in> set as. \<not> p a \<Longrightarrow> p y \<Longrightarrow> take_first p (as @ y # bs) = Some (y, as @ bs)"
  by (induction as) auto

lemma map_of_first:
  "j < length xs \<Longrightarrow> fst (xs ! j) = k \<Longrightarrow> (\<forall>i < j. fst (xs ! i) \<noteq> k) \<Longrightarrow>
   map_of xs k = Some (snd (xs ! j))"
proof (induction xs arbitrary: j)
  case (Cons x xs)
  then show ?case by (cases j) (auto, force)
qed simp

lemma map_of_update_first:
  "j < length xs \<Longrightarrow> fst (xs ! j) = k \<Longrightarrow> (\<forall>i < j. fst (xs ! i) \<noteq> k) \<Longrightarrow>
   map_of (xs[j := (k, v)]) = (map_of xs)(k \<mapsto> v)"
proof (induction xs arbitrary: j)
  case (Cons x xs)
  show ?case
  proof (cases j)
    case 0
    with Cons.prems show ?thesis by (cases x) auto
  next
    case (Suc j')
    have "fst x \<noteq> k" using Cons.prems(3) Suc by force
    moreover have "map_of (xs[j' := (k, v)]) = (map_of xs)(k \<mapsto> v)"
      using Cons.prems Suc by (intro Cons.IH) auto
    ultimately show ?thesis using Suc by (cases x) (auto simp: fun_upd_twist)
  qed
qed simp

lemma map_of_eq_None_nth: "map_of xs k = None \<longleftrightarrow> (\<forall>i < length xs. fst (xs ! i) \<noteq> k)"
  unfolding map_of_eq_None_iff by (metis image_eqI imageE in_set_conv_nth)

lemma sum_list_update_int:
  fixes xs :: "int list"
  shows "i < length xs \<Longrightarrow> sum_list (xs[i := x]) = sum_list xs - xs ! i + x"
proof (induction xs arbitrary: i)
  case (Cons a xs)
  then show ?case by (cases i) auto
qed simp

end
