(* ===== verification/Cstdio.thy ===== *)
theory Cstdio
  imports Prelude
begin

text \<open>
  The part of C's standard input and output the programs use: numbers printed in a radix
  with a minimum width (\<^verbatim>\<open>%d\<close>, \<^verbatim>\<open>%u\<close>, \<^verbatim>\<open>%02d\<close>, \<^verbatim>\<open>%x\<close>),
  \<^verbatim>\<open>atoi\<close>, and the \<^verbatim>\<open>scanf\<close> conversions \<^verbatim>\<open>%d\<close>, \<^verbatim>\<open>%Ns\<close> and
  \<^verbatim>\<open>%c\<close>. An input stream is the list of characters not read yet; at its end
  \<^verbatim>\<open>getchar\<close> returns \<^verbatim>\<open>EOF\<close> again and again.
\<close>

section \<open>Printing numbers\<close>

definition digit_char :: "nat \<Rightarrow> char" where
  "digit_char d = (if d < 10 then char_of (48 + d) else char_of (87 + d))"

fun radix_str :: "nat \<Rightarrow> nat \<Rightarrow> string" where
  "radix_str b n =
     (if b < 2 \<or> n < b then [digit_char n] else radix_str b (n div b) @ [digit_char (n mod b)])"

declare radix_str.simps [simp del]

definition dec_str :: "int \<Rightarrow> string" where
  "dec_str z = (if z < 0 then CHR ''-'' # radix_str 10 (nat (- z)) else radix_str 10 (nat z))"

definition pad_left :: "char \<Rightarrow> nat \<Rightarrow> string \<Rightarrow> string" where
  "pad_left c w s = replicate (w - length s) c @ s"

definition pad_right :: "nat \<Rightarrow> string \<Rightarrow> string" where
  "pad_right w s = s @ replicate (w - length s) CHR '' ''"

text \<open>
  \<^verbatim>\<open>%02d\<close>: zeros between the sign and the digits, two characters at least.
\<close>

definition fmt_02d :: "int \<Rightarrow> string" where
  "fmt_02d z =
     (if z < 0 then CHR ''-'' # pad_left (CHR ''0'') 1 (radix_str 10 (nat (- z)))
      else pad_left (CHR ''0'') 2 (radix_str 10 (nat z)))"

lemma radix_str_small: "n < b \<Longrightarrow> radix_str b n = [digit_char n]"
  by (subst radix_str.simps) simp

lemma radix_str_ne [simp]: "radix_str b n \<noteq> []"
  by (subst radix_str.simps) simp

lemma length_radix_str_pos [simp]: "0 < length (radix_str b n)"
  by simp

lemma radix_str_two:
  assumes "10 \<le> n" and "n < 100"
  shows "radix_str 10 n = [digit_char (n div 10), digit_char (n mod 10)]"
proof -
  from assms have "n div 10 < 10" by arith
  with assms show ?thesis by (subst radix_str.simps) (simp add: radix_str_small)
qed

lemma length_pad_left: "length (pad_left c w s) = max w (length s)"
  by (simp add: pad_left_def)

lemma length_fmt_02d: "0 \<le> z \<Longrightarrow> z < 100 \<Longrightarrow> length (fmt_02d z) = 2"
proof (cases "z < 10")
  case True
  moreover assume "0 \<le> z"
  ultimately show ?thesis
    by (simp add: fmt_02d_def length_pad_left radix_str_small nat_less_iff)
next
  case False
  moreover assume "z < 100"
  ultimately show ?thesis
    by (simp add: fmt_02d_def length_pad_left radix_str_two nat_less_iff le_nat_iff)
qed

section \<open>Reading numbers\<close>

definition c_isdigit :: "char \<Rightarrow> bool" where
  "c_isdigit c \<longleftrightarrow> 48 \<le> (of_char c :: nat) \<and> (of_char c :: nat) \<le> 57"

definition c_isspace :: "char \<Rightarrow> bool" where
  "c_isspace c \<longleftrightarrow> of_char c \<in> {9 :: nat, 10, 11, 12, 13, 32}"

definition skip_ws :: "string \<Rightarrow> string" where
  "skip_ws s = dropWhile c_isspace s"

fun dec_digits :: "nat \<Rightarrow> string \<Rightarrow> nat \<times> string" where
  "dec_digits acc [] = (acc, [])"
| "dec_digits acc (c # cs) =
     (if c_isdigit c then dec_digits (10 * acc + (of_char c - 48)) cs else (acc, c # cs))"

text \<open>
  \<^verbatim>\<open>strtol\<close> in base 10 on a string without leading blanks: an optional sign and at
  least one digit; the value saturates at 64 bits and the caller stores it in an
  \<^verbatim>\<open>int\<close>.
\<close>

definition clamp64 :: "int \<Rightarrow> int" where
  "clamp64 z = max (-9223372036854775808) (min 9223372036854775807 z)"

definition scan_digits :: "int \<Rightarrow> string \<Rightarrow> int option \<times> string" where
  "scan_digits sg s =
     (case s of
        [] \<Rightarrow> (None, [])
      | c # cs \<Rightarrow>
          if c_isdigit c
          then (let (v, r) = dec_digits 0 s in (Some (wrap32 (clamp64 (sg * int v))), r))
          else (None, s))"

definition scan_d :: "string \<Rightarrow> int option \<times> string" where
  "scan_d s =
     (case skip_ws s of
        [] \<Rightarrow> (None, [])
      | c # cs \<Rightarrow>
          if c = CHR ''-'' then scan_digits (-1) cs
          else if c = CHR ''+'' then scan_digits 1 cs
          else scan_digits 1 (c # cs))"

definition atoi :: "string \<Rightarrow> int" where
  "atoi s = (case fst (scan_d s) of None \<Rightarrow> 0 | Some v \<Rightarrow> v)"

lemma dec_digits_append:
  "\<forall>c \<in> set ds. c_isdigit c \<Longrightarrow> dec_digits acc (ds @ r) = dec_digits (fst (dec_digits acc ds)) r"
  by (induction ds arbitrary: acc) auto

lemma of_char_digit: "d < 10 \<Longrightarrow> (of_char (digit_char d) :: nat) = 48 + d"
  by (simp add: digit_char_def)

lemma c_isdigit_digit_char [simp]: "d < 10 \<Longrightarrow> c_isdigit (digit_char d)"
  by (simp add: c_isdigit_def of_char_digit)

lemma radix10_digits: "\<forall>c \<in> set (radix_str 10 n). c_isdigit c"
proof (induction "10::nat" n rule: radix_str.induct)
  case (1 n)
  then show ?case by (subst radix_str.simps) (auto simp: not_less)
qed

lemma dec_digits_radix: "fst (dec_digits 0 (radix_str 10 n)) = n"
proof (induction "10::nat" n rule: radix_str.induct)
  case (1 n)
  show ?case
  proof (cases "n < 10")
    case True
    then show ?thesis by (simp add: radix_str_small of_char_digit)
  next
    case False
    with 1 have "fst (dec_digits 0 (radix_str 10 (n div 10))) = n div 10" by simp
    with False show ?thesis
      by (subst radix_str.simps) (simp add: dec_digits_append radix10_digits of_char_digit)
  qed
qed

lemma dec_digits_all: "\<forall>c \<in> set s. c_isdigit c \<Longrightarrow> snd (dec_digits acc s) = []"
  by (induction s arbitrary: acc) auto

definition digit_val :: "char \<Rightarrow> nat" where
  "digit_val c = (if (of_char c :: nat) < 58 then of_char c - 48 else of_char c - 87)"

lemma digit_val_char: "d < 16 \<Longrightarrow> digit_val (digit_char d) = d"
  by (auto simp: digit_val_def digit_char_def)

definition radix_val :: "nat \<Rightarrow> string \<Rightarrow> nat" where
  "radix_val b s = foldl (\<lambda>v c. b * v + digit_val c) 0 s"

text \<open>What is printed in a radix can be read back, so it determines the number.\<close>

lemma radix_val_str: "2 \<le> b \<Longrightarrow> b \<le> 16 \<Longrightarrow> radix_val b (radix_str b n) = n"
proof (induction b n rule: radix_str.induct)
  case (1 b n)
  show ?case
  proof (cases "n < b")
    case True
    with 1 show ?thesis by (simp add: radix_str_small radix_val_def digit_val_char)
  next
    case False
    with 1 have "radix_val b (radix_str b (n div b)) = n div b" by simp
    moreover have "n mod b < 16"
      using 1(2,3) mod_less_divisor [of b n] by linarith
    moreover have "radix_str b n = radix_str b (n div b) @ [digit_char (n mod b)]"
      using 1(2) False by (subst radix_str.simps) simp
    ultimately show ?thesis
      by (simp add: radix_val_def digit_val_char)
  qed
qed

lemma radix_str_inject: "2 \<le> b \<Longrightarrow> b \<le> 16 \<Longrightarrow> radix_str b m = radix_str b n \<longleftrightarrow> m = n"
  by (metis radix_val_str)

lemma c_isdigit_not_space: "c_isdigit c \<Longrightarrow> \<not> c_isspace c"
  by (auto simp: c_isdigit_def c_isspace_def)

lemma c_isdigit_not_sign: "c_isdigit c \<Longrightarrow> c \<noteq> CHR ''-'' \<and> c \<noteq> CHR ''+''"
  by (auto simp: c_isdigit_def)

lemma scan_digits_radix:
  "scan_digits sg (radix_str 10 n) = (Some (wrap32 (clamp64 (sg * int n))), [])"
proof -
  obtain c cs where c: "radix_str 10 n = c # cs" by (cases "radix_str 10 n") auto
  with radix10_digits [of n] have "c_isdigit c" by simp
  moreover obtain v r where vr: "dec_digits 0 (radix_str 10 n) = (v, r)" by fastforce
  ultimately show ?thesis
    using c dec_digits_radix [of n] dec_digits_all [OF radix10_digits, of 0 n]
    by (simp add: scan_digits_def vr)
qed

lemma scan_d_dec_str: "in32 z \<Longrightarrow> scan_d (dec_str z) = (Some z, [])"
proof (cases "z < 0")
  case True
  assume "in32 z"
  with True have "clamp64 z = z" by (simp add: clamp64_def in32_def)
  with True \<open>in32 z\<close> show ?thesis
    by (simp add: scan_d_def dec_str_def skip_ws_def c_isspace_def scan_digits_radix)
next
  case False
  assume "in32 z"
  with False have k: "clamp64 z = z" by (simp add: clamp64_def in32_def)
  obtain c cs where c: "radix_str 10 (nat z) = c # cs" by (cases "radix_str 10 (nat z)") auto
  with radix10_digits [of "nat z"] have d: "c_isdigit c" by simp
  with c False have "scan_d (dec_str z) = scan_digits 1 (radix_str 10 (nat z))"
    by (simp add: scan_d_def dec_str_def skip_ws_def c_isdigit_not_space c_isdigit_not_sign)
  with k False \<open>in32 z\<close> show ?thesis by (simp add: scan_digits_radix)
qed

lemma atoi_dec_str: "in32 z \<Longrightarrow> atoi (dec_str z) = z"
  by (simp add: atoi_def scan_d_dec_str)

lemma scan_d_in32: "scan_d s = (Some v, r) \<Longrightarrow> in32 v"
  by (auto simp: scan_d_def scan_digits_def split: list.splits if_splits prod.splits)

text \<open>A number written with leading zeros and followed by something else than a digit.\<close>

lemma dec_digits_stop: "r = [] \<or> \<not> c_isdigit (hd r) \<Longrightarrow> dec_digits acc r = (acc, r)"
  by (cases r) auto

lemma scan_d_digits:
  assumes "ds \<noteq> []" and d: "\<forall>c \<in> set ds. c_isdigit c" and r: "r = [] \<or> \<not> c_isdigit (hd r)"
  shows "scan_d (ds @ r) = (Some (wrap32 (clamp64 (int (fst (dec_digits 0 ds))))), r)"
proof -
  obtain c cs where c: "ds = c # cs" using assms(1) by (cases ds) auto
  with d have dc: "c_isdigit c" by simp
  have "dec_digits 0 (ds @ r) = (fst (dec_digits 0 ds), r)"
    using dec_digits_append [OF d] dec_digits_stop [OF r] by simp
  with c dc show ?thesis
    by (simp add: scan_d_def skip_ws_def c_isdigit_not_space c_isdigit_not_sign scan_digits_def)
qed

lemma dec_digits_zeros: "dec_digits 0 (replicate k (CHR ''0'') @ s) = dec_digits 0 s"
  by (induction k) (auto simp: c_isdigit_def)

lemma scan_d_fmt_02d:
  assumes "0 \<le> z" and "in32 z" and "r = [] \<or> \<not> c_isdigit (hd r)"
  shows "scan_d (fmt_02d z @ r) = (Some z, r)"
proof -
  let ?n = "radix_str 10 (nat z)"
  have "\<forall>c \<in> set (fmt_02d z). c_isdigit c"
    using assms(1) radix10_digits [of "nat z"] by (auto simp: fmt_02d_def pad_left_def c_isdigit_def)
  moreover have "fst (dec_digits 0 (fmt_02d z)) = nat z"
    using assms(1) by (simp add: fmt_02d_def pad_left_def dec_digits_zeros dec_digits_radix)
  moreover have "fmt_02d z \<noteq> []" by (simp add: fmt_02d_def pad_left_def)
  moreover have "clamp64 z = z" using assms(2) by (simp add: clamp64_def in32_def)
  ultimately show ?thesis using assms scan_d_digits [of "fmt_02d z" r] by simp
qed

lemma length_radix10_le: "n < 10 ^ k \<Longrightarrow> 0 < k \<Longrightarrow> length (radix_str 10 n) \<le> k"
proof (induction k arbitrary: n)
  case (Suc k)
  show ?case
  proof (cases "n < 10")
    case False
    with Suc.prems have "0 < k" by (cases k) auto
    moreover from Suc.prems have "n div 10 < 10 ^ k" by auto
    ultimately have "length (radix_str 10 (n div 10)) \<le> k" using Suc.IH by blast
    with False show ?thesis by (subst radix_str.simps) simp
  qed (simp add: radix_str_small)
qed simp

section \<open>Reading words and characters\<close>

text \<open>\<^verbatim>\<open>scanf("%Ns")\<close>: skip blanks, then at most \<open>n\<close> characters that are not.\<close>

definition scan_s :: "nat \<Rightarrow> string \<Rightarrow> string option \<times> string" where
  "scan_s n s =
     (let t = skip_ws s; w = take n (takeWhile (\<lambda>c. \<not> c_isspace c) t)
      in if w = [] then (None, t) else (Some w, drop (length w) t))"

fun scan_c :: "string \<Rightarrow> char option \<times> string" where
  "scan_c [] = (None, [])"
| "scan_c (c # cs) = (Some c, cs)"

text \<open>
  \<^verbatim>\<open>while (getchar() != '\n');\<close> --- at the end of the input it never stops, and the
  value is \<open>None\<close>.
\<close>

partial_function (option) discard_line :: "string \<Rightarrow> string option" where
  "discard_line s =
     (case scan_c s of (c, r) \<Rightarrow> if c = Some (CHR ''\<newline>'') then Some r else discard_line r)"

lemma discard_line_newline: "discard_line s = Some r \<Longrightarrow> CHR ''\<newline>'' \<in> set s"
proof (rule discard_line.raw_induct [where P = "\<lambda>s r. CHR ''\<newline>'' \<in> set s"])
  fix f s r
  assume IH: "\<And>s r. f s = Some r \<Longrightarrow> CHR ''\<newline>'' \<in> set s"
    and eq: "(case scan_c s of (c, r) \<Rightarrow> if c = Some CHR ''\<newline>'' then Some r else f r) = Some r"
  show "CHR ''\<newline>'' \<in> set s"
    using eq IH [of "snd (scan_c s)"] by (cases s) (auto split: if_splits)
qed

lemma discard_line_Nil [simp, code]: "discard_line [] = None"
  using discard_line_newline [of "[]"] by (cases "discard_line []") auto

lemma discard_line_Cons [simp, code]:
  "discard_line (c # cs) = (if c = CHR ''\<newline>'' then Some cs else discard_line cs)"
  by (subst discard_line.simps) simp

lemma discard_line_iff: "(\<exists>r. discard_line s = Some r) \<longleftrightarrow> CHR ''\<newline>'' \<in> set s"
  by (induction s) auto

lemma scan_s_length: "scan_s n s = (Some w, r) \<Longrightarrow> w \<noteq> [] \<and> length w \<le> n"
  by (auto simp: scan_s_def Let_def split: if_splits)

end
