(* ===== verification/Shop_Common.thy ===== *)
theory Shop_Common
  imports Cstdio
begin

text \<open>
  \<^verbatim>\<open>IPC/shop_common.h\<close>: the data the three processes of the shop share. The
  inventory is the struct of the shared memory segment, with its array of
  \<open>MAX_ITEMS\<close> items; names are buffers of \<open>MAX_ITEM_NAME\<close> characters. The System V
  message queue is a list of typed messages with a byte limit; its interface to the
  processes is the locale \<open>sysv_queue\<close>. The search for an item by name, which all
  three programs do with the same loop, is \<open>find_item\<close>; what it and an update of the
  item found mean for the map from names to items is the locale \<open>keyed_store\<close>.
  C's \<^verbatim>\<open>double\<close> is a type parameter \<open>'d\<close> with its operations in a record.
\<close>

section \<open>Constants and doubles\<close>

definition MAX_ITEMS :: nat where "MAX_ITEMS = 100"
definition MAX_ITEM_NAME :: nat where "MAX_ITEM_NAME = 50"
definition MSG_ORDER :: int where "MSG_ORDER = 1"
definition MSG_RESPONSE :: int where "MSG_RESPONSE = 4"
definition MSG_NOTIFY_LOW_STOCK :: int where "MSG_NOTIFY_LOW_STOCK = 5"
definition MSG_NOTIFY_OUT_OF_STOCK :: int where "MSG_NOTIFY_OUT_OF_STOCK = 6"
definition NOTIFY_LOW_STOCK :: int where "NOTIFY_LOW_STOCK = 1"
definition NOTIFY_OUT_OF_STOCK :: int where "NOTIFY_OUT_OF_STOCK = 2"

lemmas shop_consts = MAX_ITEMS_def MAX_ITEM_NAME_def MSG_ORDER_def MSG_RESPONSE_def
  MSG_NOTIFY_LOW_STOCK_def MSG_NOTIFY_OUT_OF_STOCK_def NOTIFY_LOW_STOCK_def
  NOTIFY_OUT_OF_STOCK_def

record 'd fp =
  fp_zero :: 'd
  fp_of_int :: "int \<Rightarrow> 'd"
  fp_add :: "'d \<Rightarrow> 'd \<Rightarrow> 'd"
  fp_mul :: "'d \<Rightarrow> 'd \<Rightarrow> 'd"
  fp_le :: "'d \<Rightarrow> 'd \<Rightarrow> bool"
  fp_scan :: "string \<Rightarrow> 'd option \<times> string"

text \<open>
  A concrete instance for examples: prices are whole numbers of cents, written with up to
  two digits behind the point.
\<close>

definition cents_scan :: "string \<Rightarrow> int option \<times> string" where
  "cents_scan s =
     (let t = skip_ws s; (v, r) = dec_digits 0 t in
      if length r = length t then (None, t)
      else case r of
        [] \<Rightarrow> (Some (100 * int v), [])
      | c # cs \<Rightarrow>
          if c = CHR ''.'' then
            (let (u, r') = dec_digits 0 cs; k = length cs - length r' in
             (Some (100 * int v + (if k \<le> 2 then int u * 10 ^ (2 - k) else int u div 10 ^ (k - 2))), r'))
          else (Some (100 * int v), r))"

definition cents :: "int fp" where
  "cents = \<lparr>fp_zero = 0, fp_of_int = (\<lambda>z. z), fp_add = (+), fp_mul = (*), fp_le = (\<le>),
            fp_scan = cents_scan\<rparr>"

section \<open>Bounded string copy\<close>

definition safe_strncpy :: "char list \<Rightarrow> char list \<Rightarrow> nat \<Rightarrow> char list" where
  "safe_strncpy dest src n =
     (let len = length (cstr src);
          len' = (if len \<ge> n then n - 1 else len)
      in take len' src @ NUL # drop (Suc len') dest)"

lemma take_cstr: "k \<le> length (cstr b) \<Longrightarrow> take k b = take k (cstr b)"
  unfolding cstr_def by (metis min.absorb1 take_take takeWhile_eq_take)

lemma cstr_safe_strncpy: "0 < n \<Longrightarrow> cstr (safe_strncpy dest src n) = take (n - 1) (cstr src)"
proof -
  assume "0 < n"
  define k where "k = (if length (cstr src) \<ge> n then n - 1 else length (cstr src))"
  have "k \<le> length (cstr src)" by (auto simp: k_def)
  then have t: "take k src = take k (cstr src)" by (rule take_cstr)
  have "NUL \<notin> set (take k (cstr src))" by (auto dest: in_set_takeD)
  then have "cstr (take k src @ NUL # drop (Suc k) dest) = take k (cstr src)"
    by (simp add: t)
  moreover have "take k (cstr src) = take (n - 1) (cstr src)" using \<open>0 < n\<close> by (auto simp: k_def)
  ultimately show ?thesis by (simp add: safe_strncpy_def Let_def k_def)
qed

lemma length_safe_strncpy:
  assumes "0 < n" and "length dest = n"
  shows "length (safe_strncpy dest src n) = n"
proof -
  have "length (cstr src) \<le> length src" by (simp add: cstr_def length_takeWhile_le)
  with assms show ?thesis by (auto simp: safe_strncpy_def Let_def)
qed

lemma terminated_safe_strncpy: "terminated (safe_strncpy dest src n)"
  by (simp add: safe_strncpy_def Let_def terminated_def)

section \<open>Items and the inventory\<close>

record 'd inventory_item =
  it_name :: "char list"
  it_quantity :: int
  it_price :: 'd
  it_low_threshold :: int

record 'd shared_inventory =
  inv_items :: "'d inventory_item list"
  inv_item_count :: int
  inv_updates_pending :: int

text \<open>The \<^verbatim>\<open>memset(inventory, 0, sizeof(...))\<close> of a fresh segment.\<close>

definition zero_item :: "'d fp \<Rightarrow> 'd inventory_item" where
  "zero_item f = \<lparr>it_name = replicate MAX_ITEM_NAME NUL, it_quantity = 0, it_price = fp_zero f,
                  it_low_threshold = 0\<rparr>"

definition zero_inventory :: "'d fp \<Rightarrow> 'd shared_inventory" where
  "zero_inventory f = \<lparr>inv_items = replicate MAX_ITEMS (zero_item f), inv_item_count = 0,
                       inv_updates_pending = 0\<rparr>"

definition item_ok :: "'d inventory_item \<Rightarrow> bool" where
  "item_ok it \<longleftrightarrow> length (it_name it) = MAX_ITEM_NAME \<and> terminated (it_name it) \<and>
     in32 (it_quantity it) \<and> in32 (it_low_threshold it)"

definition wf_inventory :: "'d shared_inventory \<Rightarrow> bool" where
  "wf_inventory iv \<longleftrightarrow> length (inv_items iv) = MAX_ITEMS \<and>
     0 \<le> inv_item_count iv \<and> inv_item_count iv \<le> int MAX_ITEMS \<and>
     (\<forall>it \<in> set (inv_items iv). item_ok it)"

lemma wf_zero_inventory: "wf_inventory (zero_inventory f)"
  by (auto simp: wf_inventory_def zero_inventory_def zero_item_def item_ok_def terminated_def
      in32_def MAX_ITEM_NAME_def)

text \<open>
  The search \<^verbatim>\<open>for (i = 0; i < item_count; i++) if (strcmp(items[i].name, name) == 0)\<close>
  that ends at the first match.
\<close>

function find_item_from :: "'d shared_inventory \<Rightarrow> string \<Rightarrow> nat \<Rightarrow> nat option c_res" where
  "find_item_from iv name i =
     (if int i < inv_item_count iv then
        if length (inv_items iv) \<le> i then Inl Out_Of_Bounds
        else if strcmp (cstr (it_name (inv_items iv ! i))) name = 0 then Inr (Some i)
        else find_item_from iv name (Suc i)
      else Inr None)"
  by pat_completeness auto
termination
  by (relation "measure (\<lambda>(iv, name, i). nat (inv_item_count iv - int i))") auto

declare find_item_from.simps [simp del]

definition find_item :: "'d shared_inventory \<Rightarrow> string \<Rightarrow> nat option c_res" where
  "find_item iv name = find_item_from iv name 0"

definition item_named :: "'d shared_inventory \<Rightarrow> nat \<Rightarrow> string \<Rightarrow> bool" where
  "item_named iv i name \<longleftrightarrow> cstr (it_name (inv_items iv ! i)) = name"

lemma find_item_from_total:
  "inv_item_count iv \<le> int (length (inv_items iv)) \<Longrightarrow> \<exists>r. find_item_from iv name i = Inr r"
proof (induction iv name i rule: find_item_from.induct)
  case (1 iv name i)
  then show ?case by (subst find_item_from.simps) auto
qed

lemma find_item_from_Some:
  "find_item_from iv name i = Inr (Some j) \<Longrightarrow>
   i \<le> j \<and> int j < inv_item_count iv \<and> j < length (inv_items iv) \<and> item_named iv j name \<and>
   (\<forall>k. i \<le> k \<and> k < j \<longrightarrow> \<not> item_named iv k name)"
proof (induction iv name i rule: find_item_from.induct)
  case (1 iv name i)
  show ?case
  proof (cases "item_named iv i name")
    case True
    with "1.prems" show ?thesis
      by (subst (asm) find_item_from.simps) (auto simp: item_named_def split: if_splits)
  next
    case False
    with "1.prems" have g: "int i < inv_item_count iv" "\<not> length (inv_items iv) \<le> i"
      and r: "find_item_from iv name (Suc i) = Inr (Some j)"
      by (subst (asm) find_item_from.simps, simp add: item_named_def split: if_splits)+
    from False have "strcmp (cstr (it_name (inv_items iv ! i))) name \<noteq> 0"
      by (simp add: item_named_def)
    from "1.IH" [OF g this r] have "Suc i \<le> j" "int j < inv_item_count iv"
      "j < length (inv_items iv)" "item_named iv j name"
      and "\<forall>k. Suc i \<le> k \<and> k < j \<longrightarrow> \<not> item_named iv k name" by auto
    with False show ?thesis by (metis Suc_leD Suc_leI le_neq_implies_less)
  qed
qed

lemma find_item_from_None:
  "find_item_from iv name i = Inr None \<Longrightarrow>
   \<forall>k. i \<le> k \<and> int k < inv_item_count iv \<longrightarrow> \<not> item_named iv k name"
proof (induction iv name i rule: find_item_from.induct)
  case (1 iv name i)
  show ?case
  proof (cases "int i < inv_item_count iv")
    case True
    with "1.prems" have g: "\<not> length (inv_items iv) \<le> i"
      and n: "strcmp (cstr (it_name (inv_items iv ! i))) name \<noteq> 0"
      and r: "find_item_from iv name (Suc i) = Inr None"
      by (subst (asm) find_item_from.simps, simp split: if_splits)+
    from n have "\<not> item_named iv i name" by (simp add: item_named_def)
    with "1.IH" [OF True g n r] show ?thesis by (metis Suc_leI le_neq_implies_less)
  qed auto
qed

section \<open>The inventory as a map from names to items\<close>

text \<open>
  The contract of the search and of an update at the place it found, for clients that only
  care about the map from keys to values.
\<close>

locale keyed_store =
  fixes find :: "'s \<Rightarrow> 'k \<Rightarrow> nat option c_res"
    and get :: "'s \<Rightarrow> nat \<Rightarrow> 'v"
    and put :: "'s \<Rightarrow> nat \<Rightarrow> 'v \<Rightarrow> 's"
    and key :: "'v \<Rightarrow> 'k"
    and wf :: "'s \<Rightarrow> bool"
    and ok :: "'v \<Rightarrow> bool"
    and absm :: "'s \<Rightarrow> 'k \<Rightarrow> 'v option"
  assumes find_total: "wf s \<Longrightarrow> \<exists>r. find s k = Inr r"
    and find_some: "wf s \<Longrightarrow> find s k = Inr (Some i) \<Longrightarrow>
      absm s k = Some (get s i) \<and> key (get s i) = k \<and> ok (get s i)"
    and find_none: "wf s \<Longrightarrow> find s k = Inr None \<Longrightarrow> absm s k = None"
    and put_abs: "wf s \<Longrightarrow> find s k = Inr (Some i) \<Longrightarrow> key v = k \<Longrightarrow>
      absm (put s i v) = (absm s)(k \<mapsto> v)"
    and put_wf: "wf s \<Longrightarrow> find s k = Inr (Some i) \<Longrightarrow> ok v \<Longrightarrow> wf (put s i v)"
begin

lemma find_cases:
  assumes "wf s"
  obtains "find s k = Inr None" and "absm s k = None"
  | i where "find s k = Inr (Some i)" and "absm s k = Some (get s i)"
      and "key (get s i) = k" and "ok (get s i)"
proof -
  from find_total [OF assms, of k] obtain r where r: "find s k = Inr r" ..
  show thesis
    using r find_none [OF assms, of k] find_some [OF assms, of k] that by (cases r) auto
qed

lemma found_iff: "wf s \<Longrightarrow> (\<exists>i. find s k = Inr (Some i)) \<longleftrightarrow> absm s k \<noteq> None"
  by (rule find_cases [of s k]) auto

lemma put_other:
  "wf s \<Longrightarrow> find s k = Inr (Some i) \<Longrightarrow> key v = k \<Longrightarrow> k' \<noteq> k \<Longrightarrow> absm (put s i v) k' = absm s k'"
  by (simp add: put_abs)

lemma put_dom:
  "wf s \<Longrightarrow> find s k = Inr (Some i) \<Longrightarrow> key v = k \<Longrightarrow> dom (absm (put s i v)) = dom (absm s)"
  by (auto simp: put_abs find_some split: if_splits)

lemma put_found_iff:
  assumes "wf s" and "find s k = Inr (Some i)" and "key v = k" and "ok v"
  shows "(\<exists>j. find (put s i v) k' = Inr (Some j)) \<longleftrightarrow> (\<exists>j. find s k' = Inr (Some j))"
  using assms by (simp add: found_iff put_wf put_abs find_some)

end

text \<open>A store whose values carry a quantity that clients replace.\<close>

locale stock_store = keyed_store +
  fixes qty :: "'c \<Rightarrow> int" and set_qty :: "int \<Rightarrow> 'c \<Rightarrow> 'c"
  assumes key_set_qty: "key (set_qty n v) = key v"
    and qty_set_qty: "qty (set_qty n v) = n"
    and ok_set_qty: "ok v \<Longrightarrow> in32 n \<Longrightarrow> ok (set_qty n v)"
    and ok_qty: "ok v \<Longrightarrow> in32 (qty v)"
begin

lemma adjust:
  assumes "wf s" and "find s k = Inr (Some i)" and "in32 n"
  shows "wf (put s i (set_qty n (get s i)))"
    and "absm (put s i (set_qty n (get s i))) = (absm s)(k \<mapsto> set_qty n (get s i))"
  using assms find_some [OF assms(1,2)]
  by (auto intro!: put_wf put_abs simp: ok_set_qty key_set_qty)

lemma adjust_qty:
  assumes "wf s" and "find s k = Inr (Some i)" and "in32 n"
  shows "map_option qty (absm (put s i (set_qty n (get s i))) k') =
    (if k' = k then Some n else map_option qty (absm s k'))"
  using adjust(2) [OF assms] by (simp add: qty_set_qty)

end

definition get_item :: "'d shared_inventory \<Rightarrow> nat \<Rightarrow> 'd inventory_item" where
  "get_item iv i = inv_items iv ! i"

definition put_item :: "'d shared_inventory \<Rightarrow> nat \<Rightarrow> 'd inventory_item \<Rightarrow> 'd shared_inventory" where
  "put_item iv i it = iv\<lparr>inv_items := (inv_items iv)[i := it]\<rparr>"

definition item_key :: "'d inventory_item \<Rightarrow> string" where
  "item_key it = cstr (it_name it)"

definition set_quantity :: "int \<Rightarrow> 'd inventory_item \<Rightarrow> 'd inventory_item" where
  "set_quantity n it = it\<lparr>it_quantity := n\<rparr>"

definition inv_map :: "'d shared_inventory \<Rightarrow> string \<Rightarrow> 'd inventory_item option" where
  "inv_map iv = map_of (map (\<lambda>it. (item_key it, it)) (take (nat (inv_item_count iv)) (inv_items iv)))"

definition stock :: "'d shared_inventory \<Rightarrow> string \<Rightarrow> int option" where
  "stock iv name = map_option it_quantity (inv_map iv name)"

lemma find_item_place:
  assumes "wf_inventory iv" and "find_item iv name = Inr (Some i)"
  shows "i < nat (inv_item_count iv)" and "i < length (inv_items iv)"
    and "item_key (inv_items iv ! i) = name"
    and "\<forall>k < i. item_key (inv_items iv ! k) \<noteq> name"
  using find_item_from_Some [of iv name 0 i] assms
  by (auto simp: find_item_def item_named_def item_key_def)

lemma inv_map_found:
  assumes "wf_inventory iv" and "find_item iv name = Inr (Some i)"
  shows "inv_map iv name = Some (inv_items iv ! i)"
proof -
  let ?xs = "map (\<lambda>it. (item_key it, it)) (take (nat (inv_item_count iv)) (inv_items iv))"
  have "map_of ?xs name = Some (snd (?xs ! i))"
    using find_item_place [OF assms] by (intro map_of_first) auto
  with find_item_place [OF assms] show ?thesis by (simp add: inv_map_def)
qed

lemma inv_map_not_found:
  assumes "find_item iv name = Inr None"
  shows "inv_map iv name = None"
proof -
  have "item_key (inv_items iv ! k) \<noteq> name" if "k < nat (inv_item_count iv)" for k
    using find_item_from_None [of iv name 0] assms that
    by (auto simp: find_item_def item_named_def item_key_def zless_nat_eq_int_zless)
  then show ?thesis by (auto simp: inv_map_def map_of_eq_None_nth)
qed

lemma inv_map_put:
  assumes "wf_inventory iv" and "find_item iv name = Inr (Some i)" and "item_key it = name"
  shows "inv_map (put_item iv i it) = (inv_map iv)(name \<mapsto> it)"
proof -
  let ?f = "\<lambda>it. (item_key it, it)"
  let ?n = "nat (inv_item_count iv)"
  let ?xs = "map ?f (take ?n (inv_items iv))"
  have "map_of (?xs[i := (name, it)]) = (map_of ?xs)(name \<mapsto> it)"
    using find_item_place [OF assms(1,2)] by (intro map_of_update_first) auto
  moreover have "?xs[i := (name, it)] = map ?f (take ?n ((inv_items iv)[i := it]))"
    using assms(3) by (simp add: take_update_swap map_update)
  ultimately show ?thesis by (simp add: inv_map_def put_item_def)
qed

interpretation store: stock_store find_item get_item put_item item_key wf_inventory item_ok inv_map
  it_quantity set_quantity
proof (unfold_locales, goal_cases)
  case (1 s k)
  then show ?case
    using find_item_from_total [of s k 0] by (simp add: wf_inventory_def find_item_def)
next
  case (2 s k i)
  then show ?case
    using inv_map_found [OF 2] find_item_place [OF 2]
    by (auto simp: get_item_def wf_inventory_def)
next
  case (5 s k i v)
  then show ?case
    by (auto simp: wf_inventory_def put_item_def dest!: set_update_subset_insert [THEN subsetD])
qed (auto simp: inv_map_not_found inv_map_put item_key_def set_quantity_def item_ok_def)

section \<open>Messages and the message queue\<close>

record 'd order_msg =
  om_mtype :: int
  om_item_name :: "char list"
  om_quantity :: int
  om_price :: 'd
  om_customer_pid :: int
  om_status :: int

record notify_msg =
  nm_mtype :: int
  nm_item_name :: "char list"
  nm_current_quantity :: int
  nm_threshold :: int
  nm_notify_type :: int

datatype 'd msg = Order_Msg "'d order_msg" | Notify_Msg notify_msg

fun msg_type :: "'d msg \<Rightarrow> int" where
  "msg_type (Order_Msg m) = om_mtype m"
| "msg_type (Notify_Msg m) = nm_mtype m"

text \<open>\<^verbatim>\<open>sizeof(msg.data)\<close> on x86-64: 50 characters, padding, and the fields.\<close>

fun msg_size :: "'d msg \<Rightarrow> nat" where
  "msg_size (Order_Msg m) = 72"
| "msg_size (Notify_Msg m) = 64"

text \<open>
  The queue of the kernel: messages in order of arrival, the limit \<^verbatim>\<open>msg_qbytes\<close> on
  their sizes, and whether \<^verbatim>\<open>IPC_RMID\<close> has removed it. \<open>IPC_Again\<close> stands for
  EAGAIN or ENOMSG under \<^verbatim>\<open>IPC_NOWAIT\<close>, and for waiting without it.
\<close>

record 'd msgq =
  q_msgs :: "'d msg list"
  q_limit :: nat
  q_removed :: bool

datatype 'a ipc_res = IPC_Ok 'a | IPC_Again | IPC_Error

definition q_used :: "'d msgq \<Rightarrow> nat" where
  "q_used q = sum_list (map msg_size (q_msgs q))"

definition msgsnd :: "'d msg \<Rightarrow> 'd msgq \<Rightarrow> 'd msgq ipc_res" where
  "msgsnd m q =
     (if q_removed q then IPC_Error
      else if q_used q + msg_size m \<le> q_limit q then IPC_Ok (q\<lparr>q_msgs := q_msgs q @ [m]\<rparr>)
      else IPC_Again)"

definition msgrcv :: "int \<Rightarrow> 'd msgq \<Rightarrow> ('d msg \<times> 'd msgq) ipc_res" where
  "msgrcv t q =
     (if q_removed q then IPC_Error
      else case take_first (\<lambda>m. msg_type m = t) (q_msgs q) of
        None \<Rightarrow> IPC_Again
      | Some (m, r) \<Rightarrow> IPC_Ok (m, q\<lparr>q_msgs := r\<rparr>))"

text \<open>
  What the processes rely on: a message sent is behind all others, one received is the
  oldest of its type, and messages of other types keep their order.
\<close>

locale sysv_queue =
  fixes snd_msg :: "'m \<Rightarrow> 'q \<Rightarrow> 'q ipc_res"
    and rcv_msg :: "int \<Rightarrow> 'q \<Rightarrow> ('m \<times> 'q) ipc_res"
    and contents :: "'q \<Rightarrow> 'm list"
    and ty :: "'m \<Rightarrow> int"
  assumes snd_ok: "snd_msg m q = IPC_Ok q' \<Longrightarrow> contents q' = contents q @ [m]"
    and rcv_ok: "rcv_msg t q = IPC_Ok (m, q') \<Longrightarrow>
      \<exists>as bs. contents q = as @ m # bs \<and> contents q' = as @ bs \<and> ty m = t \<and>
              (\<forall>a \<in> set as. ty a \<noteq> t)"
    and rcv_again: "rcv_msg t q = IPC_Again \<Longrightarrow> \<forall>m \<in> set (contents q). ty m \<noteq> t"
begin

lemma rcv_type: "rcv_msg t q = IPC_Ok (m, q') \<Longrightarrow> ty m = t"
  using rcv_ok by blast

lemma snd_filter:
  "snd_msg m q = IPC_Ok q' \<Longrightarrow>
   filter (\<lambda>x. ty x = t) (contents q') =
   filter (\<lambda>x. ty x = t) (contents q) @ (if ty m = t then [m] else [])"
  by (simp add: snd_ok)

lemma rcv_filter_same:
  assumes "rcv_msg t q = IPC_Ok (m, q')"
  shows "filter (\<lambda>x. ty x = t) (contents q) = m # filter (\<lambda>x. ty x = t) (contents q')"
proof -
  obtain as bs where *: "contents q = as @ m # bs" "contents q' = as @ bs" "ty m = t"
    "\<forall>a \<in> set as. ty a \<noteq> t" using rcv_ok [OF assms] by blast
  then have "filter (\<lambda>x. ty x = t) as = []" by (simp add: filter_empty_conv)
  with * show ?thesis by simp
qed

lemma rcv_filter_other:
  "rcv_msg t q = IPC_Ok (m, q') \<Longrightarrow> u \<noteq> t \<Longrightarrow>
   filter (\<lambda>x. ty x = u) (contents q') = filter (\<lambda>x. ty x = u) (contents q)"
  using rcv_ok by fastforce

lemma rcv_filter_rest:
  "rcv_msg t q = IPC_Ok (m, q') \<Longrightarrow> \<not> P m \<Longrightarrow> filter P (contents q') = filter P (contents q)"
  using rcv_ok by fastforce

lemma rcv_mset:
  "rcv_msg t q = IPC_Ok (m, q') \<Longrightarrow> mset (contents q) = add_mset m (mset (contents q'))"
  using rcv_ok by fastforce

lemma rcv_after_snd:
  assumes "snd_msg m q = IPC_Ok q1" and "\<forall>x \<in> set (contents q). ty x \<noteq> t" and "ty m = t"
    and "rcv_msg t q1 = IPC_Ok (m', q2)"
  shows "m' = m \<and> contents q2 = contents q"
proof -
  obtain as bs where *: "contents q1 = as @ m' # bs" "contents q2 = as @ bs" "ty m' = t"
    "\<forall>a \<in> set as. ty a \<noteq> t" using rcv_ok [OF assms(4)] by blast
  have "as @ m' # bs = contents q @ [m]" using *(1) snd_ok [OF assms(1)] by simp
  then have "bs = [] \<and> m' = m \<and> as = contents q"
  proof (cases bs rule: rev_cases)
    case (snoc ys y)
    then have "as @ m' # ys = contents q" using \<open>as @ m' # bs = contents q @ [m]\<close>
      by (metis append_Cons append_assoc append1_eq_conv)
    then have "m' \<in> set (contents q)" by (metis in_set_conv_decomp)
    with assms(2) *(3) show ?thesis by blast
  qed simp
  with *(2) show ?thesis by simp
qed

end

interpretation mq: sysv_queue msgsnd msgrcv q_msgs msg_type
proof (unfold_locales, goal_cases)
  case (2 t q m q')
  then obtain r where "take_first (\<lambda>m. msg_type m = t) (q_msgs q) = Some (m, r)"
    and "q_msgs q' = r"
    by (auto simp: msgrcv_def split: if_splits option.splits)
  then show ?case by (auto dest: take_first_Some)
qed (auto simp: msgsnd_def msgrcv_def take_first_None split: if_splits option.splits)

lemma msgsnd_Ok_fields:
  "msgsnd m q = IPC_Ok q' \<Longrightarrow>
   q' = q\<lparr>q_msgs := q_msgs q @ [m]\<rparr> \<and> \<not> q_removed q \<and> q_used q' = q_used q + msg_size m"
  by (auto simp: msgsnd_def q_used_def split: if_splits)

lemma msgrcv_Ok_fields:
  assumes "msgrcv t q = IPC_Ok (m, q')"
  shows "q_limit q' = q_limit q \<and> q_removed q' = q_removed q \<and> \<not> q_removed q \<and>
         q_used q = q_used q' + msg_size m"
proof -
  from assms obtain r where t: "take_first (\<lambda>m. msg_type m = t) (q_msgs q) = Some (m, r)"
    and q': "q' = q\<lparr>q_msgs := r\<rparr>" and n: "\<not> q_removed q"
    by (auto simp: msgrcv_def split: if_splits option.splits)
  obtain as bs where "q_msgs q = as @ m # bs" "r = as @ bs"
    using take_first_Some [OF t] by blast
  with q' n show ?thesis by (simp add: q_used_def)
qed

section \<open>The state the processes share\<close>

record 'd world =
  w_inv :: "'d shared_inventory"
  w_queue :: "'d msgq"
  w_sem :: int

section \<open>IPC objects and their keys\<close>

text \<open>
  The kernel's segments, semaphores and queues by their keys; \<open>ipc_full\<close> says that no more
  of them can be made, \<open>ipc_msgmnb\<close> is the size limit of a new queue. \<^verbatim>\<open>ftok\<close> is a
  parameter: its results depend on the directory a process was started in.
\<close>

record 'd ipc =
  ipc_shm :: "int \<rightharpoonup> 'd shared_inventory"
  ipc_sem :: "int \<rightharpoonup> int"
  ipc_msg :: "int \<rightharpoonup> 'd msgq"
  ipc_msgmnb :: nat
  ipc_full :: bool

definition get_key :: "(string \<Rightarrow> char \<Rightarrow> int) \<Rightarrow> char \<Rightarrow> int" where
  "get_key ftok c = ftok ''.'' c"

text \<open>
  \<^verbatim>\<open>CHECK\<close> of \<^verbatim>\<open>shmget\<close>, \<^verbatim>\<open>semget\<close> or \<^verbatim>\<open>msgget\<close>: with
  \<^verbatim>\<open>IPC_CREAT\<close> the object of the key is found or made, without it is found.
\<close>

definition ipc_creat :: "'o \<Rightarrow> bool \<Rightarrow> int \<Rightarrow> (int \<rightharpoonup> 'o) \<Rightarrow> (int \<rightharpoonup> 'o) c_res" where
  "ipc_creat new full key m =
     (case m key of
        Some _ \<Rightarrow> Inr m
      | None \<Rightarrow> if full then Inl Exit_Failure else Inr (m(key \<mapsto> new)))"

definition ipc_find :: "int \<Rightarrow> (int \<rightharpoonup> 'o) \<Rightarrow> 'o c_res" where
  "ipc_find key m = (case m key of Some ob \<Rightarrow> Inr ob | None \<Rightarrow> Inl Exit_Failure)"

lemma ipc_creat_Inr:
  "ipc_creat new full key m = Inr m' \<Longrightarrow>
   (\<exists>ob. m key = Some ob) \<and> m' = m \<or> m key = None \<and> m' = m(key \<mapsto> new)"
  by (auto simp: ipc_creat_def split: option.splits if_splits)

text \<open>What a process works on that has the three objects of its keys.\<close>

definition world_at :: "(string \<Rightarrow> char \<Rightarrow> int) \<Rightarrow> 'd ipc \<Rightarrow> 'd world" where
  "world_at ftok k =
     \<lparr>w_inv = the (ipc_shm k (get_key ftok (CHR ''A''))),
      w_queue = the (ipc_msg k (get_key ftok (CHR ''C''))),
      w_sem = the (ipc_sem k (get_key ftok (CHR ''B'')))\<rparr>"

definition put_world :: "(string \<Rightarrow> char \<Rightarrow> int) \<Rightarrow> 'd world \<Rightarrow> 'd ipc \<Rightarrow> 'd ipc" where
  "put_world ftok w k =
     k\<lparr>ipc_shm := (ipc_shm k)(get_key ftok (CHR ''A'') \<mapsto> w_inv w),
       ipc_sem := (ipc_sem k)(get_key ftok (CHR ''B'') \<mapsto> w_sem w),
       ipc_msg := (ipc_msg k)(get_key ftok (CHR ''C'') \<mapsto> w_queue w)\<rparr>"

lemma world_at_put [simp]: "world_at ftok (put_world ftok w k) = w"
  by (simp add: world_at_def put_world_def)

end
