(* ===== verification/Shop_Process.thy ===== *)
theory Shop_Process
  imports Shop_Common
begin

text \<open>
  \<^verbatim>\<open>IPC/shop_process.c\<close>: the server. It creates the IPC objects, loads the inventory
  file, and in its loop takes one order at a time from the queue, changes the stock under
  the semaphore, notifies the manager, and answers. Its contract towards the stock is the
  abstract operation \<open>order_spec\<close> on a map from names to quantities; the lemma
  \<open>process_order_refines\<close> says that the code implements it.
\<close>

section \<open>Start-up\<close>

definition shop_init_semaphore :: "(string \<Rightarrow> char \<Rightarrow> int) \<Rightarrow> 'd ipc \<Rightarrow> 'd ipc c_res" where
  "shop_init_semaphore ftok k =
     (let sem_key = get_key ftok (CHR ''B'') in
      c_bind (ipc_creat 0 (ipc_full k) sem_key (ipc_sem k)) (\<lambda>sems.
        Inr (k\<lparr>ipc_sem := sems(sem_key \<mapsto> 1)\<rparr>)))"

definition shop_init_shared_memory :: "'d fp \<Rightarrow> (string \<Rightarrow> char \<Rightarrow> int) \<Rightarrow> 'd ipc \<Rightarrow> 'd ipc c_res" where
  "shop_init_shared_memory f ftok k =
     (let shm_key = get_key ftok (CHR ''A'') in
      c_bind (ipc_creat (zero_inventory f) (ipc_full k) shm_key (ipc_shm k)) (\<lambda>shms.
        Inr (k\<lparr>ipc_shm := shms(shm_key \<mapsto> zero_inventory f)\<rparr>)))"

text \<open>The queue of an earlier run is found with its messages.\<close>

definition shop_init_message_queue :: "(string \<Rightarrow> char \<Rightarrow> int) \<Rightarrow> 'd ipc \<Rightarrow> 'd ipc c_res" where
  "shop_init_message_queue ftok k =
     (let msg_key = get_key ftok (CHR ''C'') in
      c_bind (ipc_creat \<lparr>q_msgs = [], q_limit = ipc_msgmnb k, q_removed = False\<rparr> (ipc_full k)
                msg_key (ipc_msg k)) (\<lambda>msgs.
        Inr (k\<lparr>ipc_msg := msgs\<rparr>)))"

text \<open>One \<^verbatim>\<open>fscanf(fp, "%49s %lf %d %d", ...)\<close>; \<open>None\<close> when it does not return 4.\<close>

definition scan_row :: "'d fp \<Rightarrow> string \<Rightarrow> (string \<times> 'd \<times> int \<times> int) option \<times> string" where
  "scan_row f s =
     (case scan_s 49 s of
        (None, r) \<Rightarrow> (None, r)
      | (Some name, r1) \<Rightarrow>
      (case fp_scan f r1 of
        (None, r) \<Rightarrow> (None, r)
      | (Some price, r2) \<Rightarrow>
      (case scan_d r2 of
        (None, r) \<Rightarrow> (None, r)
      | (Some quantity, r3) \<Rightarrow>
      (case scan_d r3 of
        (None, r) \<Rightarrow> (None, r)
      | (Some threshold, r4) \<Rightarrow> (Some (name, price, quantity, threshold), r4)))))"

definition row_item :: "'d inventory_item \<Rightarrow> string \<times> 'd \<times> int \<times> int \<Rightarrow> 'd inventory_item" where
  "row_item old row = (case row of (name, price, quantity, threshold) \<Rightarrow>
     old\<lparr>it_name := safe_strncpy (it_name old) (name @ [NUL]) MAX_ITEM_NAME,
         it_price := price, it_quantity := quantity, it_low_threshold := threshold\<rparr>)"

text \<open>
  The loop writes \<^verbatim>\<open>items[idx]\<close> without comparing \<^verbatim>\<open>idx\<close> with
  \<^verbatim>\<open>MAX_ITEMS\<close>, so a longer file runs out of the array.
\<close>

function load_rows :: "'d fp \<Rightarrow> string \<Rightarrow> nat \<Rightarrow> 'd shared_inventory \<Rightarrow>
    (nat \<times> 'd shared_inventory) c_res" where
  "load_rows f s idx iv =
     (case scan_row f s of
        (None, _) \<Rightarrow> Inr (idx, iv)
      | (Some row, r) \<Rightarrow>
          if length (inv_items iv) \<le> idx then Inl Out_Of_Bounds
          else load_rows f r (Suc idx) (put_item iv idx (row_item (get_item iv idx) row)))"
  by pat_completeness auto
termination
  by (relation "measure (\<lambda>(f, s, idx, iv). length (inv_items iv) - idx)") (auto simp: put_item_def)

declare load_rows.simps [simp del]

definition load_inventory :: "'d fp \<Rightarrow> string option \<Rightarrow> 'd shared_inventory \<Rightarrow>
    'd shared_inventory c_res" where
  "load_inventory f file iv =
     (case file of
        None \<Rightarrow> Inl Exit_Failure
      | Some s \<Rightarrow> c_bind (load_rows f s 0 iv) (\<lambda>(idx, iv'). Inr (iv'\<lparr>inv_item_count := int idx\<rparr>)))"

section \<open>Orders\<close>

text \<open>
  \<^verbatim>\<open>semop\<close> with \<^verbatim>\<open>-1\<close> waits while the semaphore is 0; both calls are
  wrapped in \<^verbatim>\<open>CHECK\<close>.
\<close>

definition shop_sem_lock :: "'d world \<Rightarrow> 'd world c_res" where
  "shop_sem_lock w = (if 0 < w_sem w then Inr (w\<lparr>w_sem := w_sem w - 1\<rparr>) else Inl Blocked)"

definition shop_sem_unlock :: "'d world \<Rightarrow> 'd world" where
  "shop_sem_unlock w = w\<lparr>w_sem := w_sem w + 1\<rparr>"

definition mk_notification :: "char list \<Rightarrow> int \<Rightarrow> int \<Rightarrow> int \<Rightarrow> notify_msg" where
  "mk_notification item_name quantity threshold notify_type =
     \<lparr>nm_mtype = (if notify_type = NOTIFY_LOW_STOCK then MSG_NOTIFY_LOW_STOCK
                  else MSG_NOTIFY_OUT_OF_STOCK),
      nm_item_name = safe_strncpy (replicate MAX_ITEM_NAME NUL) item_name MAX_ITEM_NAME,
      nm_current_quantity = quantity, nm_threshold = threshold, nm_notify_type = notify_type\<rparr>"

definition send_notification :: "char list \<Rightarrow> int \<Rightarrow> int \<Rightarrow> int \<Rightarrow> 'd msgq \<Rightarrow> 'd msgq" where
  "send_notification item_name quantity threshold notify_type q =
     (case msgsnd (Notify_Msg (mk_notification item_name quantity threshold notify_type)) q of
        IPC_Ok q' \<Rightarrow> q'
      | IPC_Again \<Rightarrow> q
      | IPC_Error \<Rightarrow> q)"

text \<open>The body of the loop at the item found, up to its \<^verbatim>\<open>break\<close>.\<close>

definition order_item :: "'d fp \<Rightarrow> nat \<Rightarrow> 'd order_msg \<Rightarrow> 'd world \<Rightarrow> 'd order_msg \<times> 'd world" where
  "order_item f i m w =
     (let it = get_item (w_inv w) i in
      if it_quantity it \<ge> om_quantity m then
        let new_quantity = wrap32 (it_quantity it - om_quantity m);
            m' = m\<lparr>om_status := 1, om_price := fp_mul f (it_price it) (fp_of_int f (om_quantity m))\<rparr>;
            w' = w\<lparr>w_inv := put_item (w_inv w) i (set_quantity new_quantity it)\<rparr>
        in if new_quantity = 0 then
             (m', w'\<lparr>w_queue := send_notification (it_name it) new_quantity (it_low_threshold it)
                                  NOTIFY_OUT_OF_STOCK (w_queue w')\<rparr>)
           else if new_quantity \<le> it_low_threshold it then
             (m', w'\<lparr>w_queue := send_notification (it_name it) new_quantity (it_low_threshold it)
                                  NOTIFY_LOW_STOCK (w_queue w')\<rparr>)
           else (m', w')
      else (m, w))"

definition send_response :: "'d order_msg \<Rightarrow> 'd world \<Rightarrow> 'd world c_res" where
  "send_response m w =
     (case msgsnd (Order_Msg m) (w_queue w) of
        IPC_Ok q \<Rightarrow> Inr (w\<lparr>w_queue := q\<rparr>)
      | IPC_Again \<Rightarrow> Inl Blocked
      | IPC_Error \<Rightarrow> Inl Exit_Failure)"

definition process_order :: "'d fp \<Rightarrow> 'd order_msg \<Rightarrow> 'd world \<Rightarrow> ('d order_msg \<times> 'd world) c_res" where
  "process_order f msg w =
     (let msg0 = msg\<lparr>om_status := 0\<rparr> in
      c_bind (shop_sem_lock w) (\<lambda>w1.
      c_bind (find_item (w_inv w1) (cstr (om_item_name msg0))) (\<lambda>found.
        let (msg2, w2) = (case found of
                            Some i \<Rightarrow> order_item f i msg0 w1
                          | None \<Rightarrow> (msg0, w1));
            w3 = shop_sem_unlock w2;
            msg3 = msg2\<lparr>om_mtype := MSG_RESPONSE\<rparr>
        in c_bind (send_response msg3 w3) (\<lambda>w4. Inr (msg3, w4)))))"

text \<open>
  The rows of the table shown at each turn; the loop reads as many items as
  \<^verbatim>\<open>item_count\<close> says.
\<close>

definition shop_display_inventory :: "'d shared_inventory \<Rightarrow> (string \<times> int \<times> 'd) list c_res" where
  "shop_display_inventory iv =
     (if int (length (inv_items iv)) < inv_item_count iv then Inl Out_Of_Bounds
      else Inr (map (\<lambda>it. (cstr (it_name it), it_quantity it, it_price it))
                  (take (nat (inv_item_count iv)) (inv_items iv))))"

text \<open>
  One turn of the main loop: the inventory is displayed (the rows are printed and not kept), at
  most one order is handled. A notification never has the type of an order; were one received
  here, the model stops.
\<close>

definition shop_iteration :: "'d fp \<Rightarrow> 'd world \<Rightarrow> 'd world c_res" where
  "shop_iteration f w =
     c_bind (shop_display_inventory (w_inv w)) (\<lambda>_.
     (case msgrcv MSG_ORDER (w_queue w) of
        IPC_Ok (Order_Msg m, q) \<Rightarrow>
          c_bind (process_order f m (w\<lparr>w_queue := q\<rparr>)) (\<lambda>(_, w'). Inr w')
      | IPC_Ok (Notify_Msg _, _) \<Rightarrow> Inl Out_Of_Bounds
      | IPC_Again \<Rightarrow> Inr w
      | IPC_Error \<Rightarrow> Inr w))"

lemma shop_iteration_wf:
  "wf_inventory (w_inv w) \<Longrightarrow> shop_iteration f w =
     (case msgrcv MSG_ORDER (w_queue w) of
        IPC_Ok (Order_Msg m, q) \<Rightarrow>
          c_bind (process_order f m (w\<lparr>w_queue := q\<rparr>)) (\<lambda>(_, w'). Inr w')
      | IPC_Ok (Notify_Msg _, _) \<Rightarrow> Inl Out_Of_Bounds
      | IPC_Again \<Rightarrow> Inr w
      | IPC_Error \<Rightarrow> Inr w)"
  by (simp add: shop_iteration_def shop_display_inventory_def wf_inventory_def)

text \<open>
  The loop \<^verbatim>\<open>while (running)\<close>. For each turn the list has what the other processes do to the
  shared objects before it (the shop sleeps between two turns), and whether SIGINT or SIGTERM
  arrives during it; its handler clears \<^verbatim>\<open>running\<close>, and a call that is waiting fails with
  EINTR, so that its \<^verbatim>\<open>CHECK\<close> exits. The flag returned is \<^verbatim>\<open>running\<close>.
\<close>

fun shop_loop :: "'d fp \<Rightarrow> bool \<Rightarrow> (('d world \<Rightarrow> 'd world) \<times> bool) list \<Rightarrow> 'd world \<Rightarrow>
    (bool \<times> 'd world) c_res" where
  "shop_loop f False turns w = Inr (False, w)"
| "shop_loop f True [] w = Inr (True, w)"
| "shop_loop f True ((others, sig) # turns) w =
     (case shop_iteration f (others w) of
        Inl e \<Rightarrow> Inl (if sig \<and> e = Blocked then Exit_Failure else e)
      | Inr w' \<Rightarrow> shop_loop f (\<not> sig) turns w')"

definition shop_cleanup :: "(string \<Rightarrow> char \<Rightarrow> int) \<Rightarrow> 'd ipc \<Rightarrow> 'd ipc" where
  "shop_cleanup ftok k =
     k\<lparr>ipc_shm := (ipc_shm k)(get_key ftok (CHR ''A'') := None),
       ipc_sem := (ipc_sem k)(get_key ftok (CHR ''B'') := None),
       ipc_msg := (ipc_msg k)(get_key ftok (CHR ''C'') := None)\<rparr>"

text \<open>
  The program: the IPC objects when it has returned from \<^verbatim>\<open>main\<close>, or when it is still in its
  loop after the turns given. \<open>early\<close> says that the signal comes before the loop, while the program
  sets up.
\<close>

definition shop_main :: "'d fp \<Rightarrow> (string \<Rightarrow> char \<Rightarrow> int) \<Rightarrow> string option \<Rightarrow> bool \<Rightarrow>
    (('d world \<Rightarrow> 'd world) \<times> bool) list \<Rightarrow> 'd ipc \<Rightarrow> (bool \<times> 'd ipc) c_res" where
  "shop_main f ftok file early turns k =
     c_bind (shop_init_semaphore ftok k) (\<lambda>k1.
     c_bind (shop_init_shared_memory f ftok k1) (\<lambda>k2.
     c_bind (shop_init_message_queue ftok k2) (\<lambda>k3.
       let w = world_at ftok k3 in
       c_bind (load_inventory f file (w_inv w)) (\<lambda>iv.
       c_bind (shop_loop f (\<not> early) turns (w\<lparr>w_inv := iv\<rparr>)) (\<lambda>(running, w').
         let k4 = put_world ftok w' k3 in
         Inr (running, if running then k4 else shop_cleanup ftok k4))))))"

section \<open>Orders implement the abstract operation on the stock\<close>

definition order_spec :: "(string \<Rightarrow> int option) \<Rightarrow> string \<Rightarrow> int \<Rightarrow> bool \<times> (string \<Rightarrow> int option)" where
  "order_spec st name n =
     (case st name of
        None \<Rightarrow> (False, st)
      | Some have \<Rightarrow> if n \<le> have then (True, st(name \<mapsto> wrap32 (have - n))) else (False, st))"

lemma w_queue_update_simps [simp]:
  "w_inv (w\<lparr>w_queue := q\<rparr>) = w_inv w" "w_sem (w\<lparr>w_queue := q\<rparr>) = w_sem w"
  by simp_all

lemma stock_put:
  assumes "wf_inventory iv" and "find_item iv k = Inr (Some i)" and "in32 n"
  shows "stock (put_item iv i (set_quantity n (get_item iv i))) = (stock iv)(k \<mapsto> n)"
  using store.adjust_qty [OF assms] by (auto simp: stock_def fun_eq_iff)

lemma order_item_effect:
  assumes "wf_inventory (w_inv w)" and "find_item (w_inv w) k = Inr (Some i)"
    and "order_item f i m w = (m', w')"
  shows "wf_inventory (w_inv w')"
    and "(om_status m' = 1, stock (w_inv w')) =
         (let (b, st) = order_spec (stock (w_inv w)) k (om_quantity m)
          in (b \<or> om_status m = 1, st))"
    and "w_sem w' = w_sem w" and "om_item_name m' = om_item_name m"
    and "om_quantity m' = om_quantity m" and "om_customer_pid m' = om_customer_pid m"
    and "om_status m' = 1 \<or> om_status m' = om_status m"
proof -
  let ?it = "get_item (w_inv w) i"
  have st: "stock (w_inv w) k = Some (it_quantity ?it)"
    using store.find_some [OF assms(1,2)] by (simp add: stock_def)
  have up: "in32 n \<Longrightarrow> wf_inventory (put_item (w_inv w) i (set_quantity n ?it))"
    and sp: "in32 n \<Longrightarrow> stock (put_item (w_inv w) i (set_quantity n ?it)) =
             (stock (w_inv w))(k \<mapsto> n)" for n
    using store.adjust(1) [OF assms(1,2)] stock_put [OF assms(1,2)] by simp_all
  show "wf_inventory (w_inv w')" and "w_sem w' = w_sem w"
    and "om_item_name m' = om_item_name m" and "om_quantity m' = om_quantity m"
    and "om_customer_pid m' = om_customer_pid m"
    and "om_status m' = 1 \<or> om_status m' = om_status m"
    and "(om_status m' = 1, stock (w_inv w')) =
         (let (b, st) = order_spec (stock (w_inv w)) k (om_quantity m)
          in (b \<or> om_status m = 1, st))"
    using assms(1,3) up st sp
    by (auto simp: order_item_def order_spec_def Let_def split: if_splits)
qed

text \<open>The ways a handled order can have gone: not found, or the loop body at its item.\<close>

lemma process_order_cases:
  assumes "wf_inventory (w_inv w)" and "process_order f m w = Inr (m', w')"
  obtains (missing) q where "find_item (w_inv w) (cstr (om_item_name m)) = Inr None"
      and "m' = m\<lparr>om_status := 0, om_mtype := MSG_RESPONSE\<rparr>" and "0 < w_sem w"
      and "msgsnd (Order_Msg m') (w_queue w) = IPC_Ok q" and "w' = w\<lparr>w_queue := q\<rparr>"
  | (found) i m2 w2 q where "find_item (w_inv w) (cstr (om_item_name m)) = Inr (Some i)"
      and "order_item f i (m\<lparr>om_status := 0\<rparr>) (w\<lparr>w_sem := w_sem w - 1\<rparr>) = (m2, w2)"
      and "0 < w_sem w" and "m' = m2\<lparr>om_mtype := MSG_RESPONSE\<rparr>"
      and "msgsnd (Order_Msg m') (w_queue w2) = IPC_Ok q"
      and "w' = w2\<lparr>w_sem := w_sem w2 + 1, w_queue := q\<rparr>"
proof -
  have send: "c_bind (send_response r v) g = Inr y \<longleftrightarrow>
      (\<exists>q. msgsnd (Order_Msg r) (w_queue v) = IPC_Ok q \<and> g (v\<lparr>w_queue := q\<rparr>) = Inr y)"
    for r :: "'a order_msg" and v and g :: "'a world \<Rightarrow> ('a order_msg \<times> 'a world) c_res" and y
    by (auto simp: send_response_def split: ipc_res.splits)
  from assms(1) show thesis
  proof (cases rule: store.find_cases [of _ "cstr (om_item_name m)"])
    case 1
    with assms(2) have "0 < w_sem w \<and> (\<exists>q. msgsnd (Order_Msg m') (w_queue w) = IPC_Ok q \<and>
        m' = m\<lparr>om_status := 0, om_mtype := MSG_RESPONSE\<rparr> \<and> w' = w\<lparr>w_queue := q\<rparr>)"
      by (auto simp: process_order_def shop_sem_lock_def shop_sem_unlock_def send Let_def
          split: if_splits)
    with 1 missing show thesis by blast
  next
    case (2 i)
    obtain m2 w2 where o: "order_item f i (m\<lparr>om_status := 0\<rparr>) (w\<lparr>w_sem := w_sem w - 1\<rparr>) = (m2, w2)"
      by fastforce
    with 2 assms(2) have "0 < w_sem w \<and> (\<exists>q. m' = m2\<lparr>om_mtype := MSG_RESPONSE\<rparr> \<and>
        msgsnd (Order_Msg m') (w_queue w2) = IPC_Ok q \<and>
        w' = w2\<lparr>w_sem := w_sem w2 + 1, w_queue := q\<rparr>)"
      by (auto simp: process_order_def shop_sem_lock_def shop_sem_unlock_def send Let_def
          split: if_splits)
    with 2 o found show thesis by blast
  qed
qed

lemma process_order_stock:
  assumes "wf_inventory (w_inv w)" and "process_order f m w = Inr (m', w')"
  shows "(om_status m' = 1, stock (w_inv w')) =
         order_spec (stock (w_inv w)) (cstr (om_item_name m)) (om_quantity m)"
  using assms
proof (cases rule: process_order_cases)
  case (missing q)
  then have "stock (w_inv w) (cstr (om_item_name m)) = None"
    using store.find_none [OF assms(1)] by (simp add: stock_def)
  with missing show ?thesis by (simp add: order_spec_def)
next
  case (found i m2 w2 q)
  with order_item_effect(2) [OF _ _ found(2)] assms(1) show ?thesis
    by (auto simp: Let_def split: prod.splits)
qed

text \<open>C1: A handled order does to the stock what the abstract operation does: it succeeds exactly
  when the first item of that name has the quantity, and then only that item's stock falls, by
  the quantity ordered; otherwise nothing changes. The reply carries the verdict.\<close>

theorem process_order_refines:
  assumes "wf_inventory (w_inv w)" and "process_order f m w = Inr (m', w')"
  shows "(om_status m' = 1, stock (w_inv w')) =
         order_spec (stock (w_inv w)) (cstr (om_item_name m)) (om_quantity m)"
  by (rule process_order_stock [OF assms])

definition shirts :: "int shared_inventory" where
  "shirts = (zero_inventory cents)\<lparr>
     inv_items := (replicate MAX_ITEMS (zero_item cents))[0 :=
       \<lparr>it_name = ''Tshirt'' @ replicate 44 NUL, it_quantity = 50, it_price = 2999,
        it_low_threshold = 10\<rparr>],
     inv_item_count := 1\<rparr>"

definition shirt_order :: "int \<Rightarrow> int order_msg" where
  "shirt_order n = \<lparr>om_mtype = MSG_ORDER, om_item_name = ''Tshirt'' @ replicate 44 NUL,
     om_quantity = n, om_price = 0, om_customer_pid = 7, om_status = 0\<rparr>"

definition shirt_world :: "nat \<Rightarrow> int world" where
  "shirt_world limit = \<lparr>w_inv = shirts,
     w_queue = \<lparr>q_msgs = [], q_limit = limit, q_removed = False\<rparr>, w_sem = 1\<rparr>"

lemma wf_shirts: "wf_inventory shirts"
proof -
  have z: "item_ok (zero_item cents)"
    using wf_zero_inventory [of cents]
    by (simp add: wf_inventory_def zero_inventory_def MAX_ITEMS_def)
  have "item_ok \<lparr>it_name = ''Tshirt'' @ replicate 44 NUL, it_quantity = 50, it_price = 2999 :: int,
        it_low_threshold = 10\<rparr>"
    by (simp add: item_ok_def MAX_ITEM_NAME_def terminated_def in32_def)
  with z show ?thesis
    by (auto simp: wf_inventory_def shirts_def zero_inventory_def MAX_ITEMS_def
        dest!: set_update_subset_insert [THEN subsetD])
qed

lemma find_shirts: "find_item shirts ''Tshirt'' = Inr (Some 0)"
  by (simp add: find_item_def find_item_from.simps shirts_def MAX_ITEMS_def)

lemma get_shirts: "get_item shirts 0 =
  \<lparr>it_name = ''Tshirt'' @ replicate 44 NUL, it_quantity = 50, it_price = 2999, it_low_threshold = 10\<rparr>"
  by (simp add: get_item_def shirts_def MAX_ITEMS_def)

lemmas shirt_eval = process_order_def shop_sem_lock_def shop_sem_unlock_def send_response_def
  shirt_world_def shirt_order_def find_shirts get_shirts order_item_def msgsnd_def q_used_def
  wrap32_def send_notification_def cents_def Let_def

lemma stock_shirts: "stock shirts ''Tshirt'' = Some 50"
  using store.find_some [OF wf_shirts find_shirts] by (simp add: stock_def get_shirts)

theorem process_order_refines_witness:
  "\<exists>m' w'. process_order cents (shirt_order 8) (shirt_world 1000) = Inr (m', w') \<and>
     om_status m' = 1 \<and> stock (w_inv w') ''Tshirt'' = Some 42"
proof -
  obtain m' w' where r: "process_order cents (shirt_order 8) (shirt_world 1000) = Inr (m', w')"
    by (simp add: shirt_eval)
  have "wf_inventory (w_inv (shirt_world 1000))" by (simp add: shirt_world_def wf_shirts)
  from process_order_refines [OF this r] r show ?thesis
    by (simp add: order_spec_def stock_shirts shirt_world_def shirt_order_def wrap32_def)
qed

section \<open>What an order puts into the queue\<close>

text \<open>
  The notification an order causes, read off the item before it: the type that the manager
  waits for, the name, the pieces left and the threshold.
\<close>

definition stock_note :: "int \<Rightarrow> int \<Rightarrow> 'd inventory_item \<Rightarrow> int \<Rightarrow> 'd msg" where
  "stock_note mtype kind it left = Notify_Msg
     \<lparr>nm_mtype = mtype, nm_item_name = safe_strncpy (replicate MAX_ITEM_NAME NUL) (it_name it) MAX_ITEM_NAME,
      nm_current_quantity = left, nm_threshold = it_low_threshold it, nm_notify_type = kind\<rparr>"

definition order_notes :: "'d shared_inventory \<Rightarrow> string \<Rightarrow> int \<Rightarrow> 'd msg list" where
  "order_notes iv name n =
     (case inv_map iv name of
        None \<Rightarrow> []
      | Some it \<Rightarrow>
          let left = wrap32 (it_quantity it - n) in
          if it_quantity it < n then []
          else if left = 0 then
            [stock_note MSG_NOTIFY_OUT_OF_STOCK NOTIFY_OUT_OF_STOCK it left]
          else if left \<le> it_low_threshold it then
            [stock_note MSG_NOTIFY_LOW_STOCK NOTIFY_LOW_STOCK it left]
          else [])"

lemma stock_note_sent:
  "Notify_Msg (mk_notification (it_name it) left (it_low_threshold it) NOTIFY_OUT_OF_STOCK) =
     stock_note MSG_NOTIFY_OUT_OF_STOCK NOTIFY_OUT_OF_STOCK it left"
  "Notify_Msg (mk_notification (it_name it) left (it_low_threshold it) NOTIFY_LOW_STOCK) =
     stock_note MSG_NOTIFY_LOW_STOCK NOTIFY_LOW_STOCK it left"
  by (simp_all add: mk_notification_def stock_note_def shop_consts)

lemma stock_note_size [simp]: "msg_size (stock_note t k it n) = 64"
  by (simp add: stock_note_def)

lemma msgsnd_room:
  "\<not> q_removed q \<Longrightarrow> q_used q + msg_size m \<le> q_limit q \<Longrightarrow>
   msgsnd m q = IPC_Ok (q\<lparr>q_msgs := q_msgs q @ [m]\<rparr>)"
  by (simp add: msgsnd_def)

lemma send_notification_room:
  "\<not> q_removed q \<Longrightarrow> q_used q + 64 \<le> q_limit q \<Longrightarrow>
   send_notification nm n th ty q =
   q\<lparr>q_msgs := q_msgs q @ [Notify_Msg (mk_notification nm n th ty)]\<rparr>"
  by (simp add: send_notification_def msgsnd_room)

lemma order_item_queue:
  assumes "wf_inventory (w_inv w)" and "find_item (w_inv w) k = Inr (Some i)"
    and "order_item f i m w = (m', w')"
    and "\<not> q_removed (w_queue w)"
    and "q_used (w_queue w) + 64 \<le> q_limit (w_queue w) \<or> order_notes (w_inv w) k (om_quantity m) = []"
  shows "w_queue w' = (w_queue w)
    \<lparr>q_msgs := q_msgs (w_queue w) @ order_notes (w_inv w) k (om_quantity m)\<rparr>"
  using assms(3-5) store.find_some [OF assms(1,2)]
  by (auto simp: order_item_def order_notes_def Let_def send_notification_room stock_note_sent not_less
      split: if_splits)

lemma q_used_append: "q_used (q\<lparr>q_msgs := q_msgs q @ ms\<rparr>) = q_used q + sum_list (map msg_size ms)"
  by (simp add: q_used_def)

lemma order_notes_size: "sum_list (map msg_size (order_notes iv k n)) \<le> 64"
  by (simp add: order_notes_def Let_def split: option.splits)

text \<open>How \<open>process_order\<close> runs when the item is found and no notification is dropped.\<close>

lemma process_order_run:
  assumes "wf_inventory (w_inv w)" and "0 < w_sem w" and "\<not> q_removed (w_queue w)"
    and "q_used (w_queue w) + 64 \<le> q_limit (w_queue w) \<or>
         order_notes (w_inv w) (cstr (om_item_name m)) (om_quantity m) = []"
  obtains m3 w3 where
    "process_order f m w = c_bind (send_response m3 w3) (\<lambda>w4. Inr (m3, w4))"
    and "w_queue w3 = (w_queue w)\<lparr>q_msgs := q_msgs (w_queue w) @
           order_notes (w_inv w) (cstr (om_item_name m)) (om_quantity m)\<rparr>"
    and "om_mtype m3 = MSG_RESPONSE" and "om_customer_pid m3 = om_customer_pid m"
  using assms(1)
proof (cases rule: store.find_cases [of _ "cstr (om_item_name m)"])
  case 1
  with assms(2) show thesis
    by (intro that [of "m\<lparr>om_status := 0, om_mtype := MSG_RESPONSE\<rparr>" w])
      (simp_all add: process_order_def shop_sem_lock_def shop_sem_unlock_def Let_def order_notes_def)
next
  case (2 i)
  let ?w1 = "w\<lparr>w_sem := w_sem w - 1\<rparr>"
  obtain m2 w2 where o: "order_item f i (m\<lparr>om_status := 0\<rparr>) ?w1 = (m2, w2)" by fastforce
  have "wf_inventory (w_inv ?w1)" "find_item (w_inv ?w1) (cstr (om_item_name m)) = Inr (Some i)"
    using assms(1) 2 by simp_all
  note e = order_item_effect [OF this o] and q = order_item_queue [OF this o]
  from 2 o assms(2) show thesis
    by (intro that [of "m2\<lparr>om_mtype := MSG_RESPONSE\<rparr>" "w2\<lparr>w_sem := w_sem w2 + 1\<rparr>"])
      (use e q assms(3,4) in \<open>auto simp: process_order_def shop_sem_lock_def shop_sem_unlock_def Let_def\<close>)
qed

lemma process_order_reply:
  assumes "wf_inventory (w_inv w)" and "0 < w_sem w" and "\<not> q_removed (w_queue w)"
    and "q_used (w_queue w) + 64 + 72 \<le> q_limit (w_queue w)"
  obtains m' w' where "process_order f m w = Inr (m', w')"
    and "w_queue w' = (w_queue w)\<lparr>q_msgs := q_msgs (w_queue w) @
      order_notes (w_inv w) (cstr (om_item_name m)) (om_quantity m) @ [Order_Msg m']\<rparr>"
    and "om_mtype m' = MSG_RESPONSE" and "om_customer_pid m' = om_customer_pid m"
proof -
  let ?notes = "order_notes (w_inv w) (cstr (om_item_name m)) (om_quantity m)"
  from assms(4) have "q_used (w_queue w) + 64 \<le> q_limit (w_queue w) \<or> ?notes = []" by simp
  with assms(1-3) obtain m3 w3 where
    p: "process_order f m w = c_bind (send_response m3 w3) (\<lambda>w4. Inr (m3, w4))"
    and q: "w_queue w3 = (w_queue w)\<lparr>q_msgs := q_msgs (w_queue w) @ ?notes\<rparr>"
    and m3: "om_mtype m3 = MSG_RESPONSE" "om_customer_pid m3 = om_customer_pid m"
    by (rule process_order_run [of w m f])
  have "q_used (w_queue w3) + 72 \<le> q_limit (w_queue w)"
    using assms(4) order_notes_size [of "w_inv w" "cstr (om_item_name m)" "om_quantity m"] q
    by (simp add: q_used_append)
  with p q m3 assms(3) show thesis
    by (intro that [of m3 "w3\<lparr>w_queue := (w_queue w3)\<lparr>q_msgs := q_msgs (w_queue w3) @ [Order_Msg m3]\<rparr>\<rparr>"])
      (simp_all add: send_response_def msgsnd_room)
qed

text \<open>C6: With room for a notification and the answer, an order is always answered: behind what
  was queued come the notification its effect calls for (none, out of stock, or low stock) and
  then the reply, of type \<open>MSG_RESPONSE\<close> and with the customer's pid.\<close>

theorem process_order_answers:
  assumes "wf_inventory (w_inv w)" and "0 < w_sem w" and "\<not> q_removed (w_queue w)"
    and "q_used (w_queue w) + 64 + 72 \<le> q_limit (w_queue w)"
  shows "\<exists>m' w'. process_order f m w = Inr (m', w') \<and>
    q_msgs (w_queue w') = q_msgs (w_queue w) @
      order_notes (w_inv w) (cstr (om_item_name m)) (om_quantity m) @ [Order_Msg m'] \<and>
    om_mtype m' = MSG_RESPONSE \<and> om_customer_pid m' = om_customer_pid m"
  using process_order_reply [OF assms, of f m] by fastforce

theorem process_order_answers_witness:
  "\<exists>m' w'. process_order cents (shirt_order 45) (shirt_world 1000) = Inr (m', w') \<and>
     q_msgs (w_queue w') =
       [stock_note MSG_NOTIFY_LOW_STOCK NOTIFY_LOW_STOCK (get_item shirts 0) 5, Order_Msg m']"
proof -
  have "wf_inventory (w_inv (shirt_world 1000))" "0 < w_sem (shirt_world 1000)"
    "\<not> q_removed (w_queue (shirt_world 1000))"
    "q_used (w_queue (shirt_world 1000)) + 64 + 72 \<le> q_limit (w_queue (shirt_world 1000))"
    by (simp_all add: shirt_world_def wf_shirts q_used_def)
  from process_order_answers [OF this, of cents "shirt_order 45"]
  have "\<exists>m' w'. process_order cents (shirt_order 45) (shirt_world 1000) = Inr (m', w') \<and>
    q_msgs (w_queue w') = order_notes shirts ''Tshirt'' 45 @ [Order_Msg m']"
    by (auto simp: shirt_world_def shirt_order_def)
  moreover have "order_notes shirts ''Tshirt'' 45 =
    [stock_note MSG_NOTIFY_LOW_STOCK NOTIFY_LOW_STOCK (get_item shirts 0) 5]"
    using store.find_some [OF wf_shirts find_shirts]
    by (simp add: order_notes_def get_shirts wrap32_def)
  ultimately show ?thesis by simp
qed

text \<open>C40: A notification goes into the queue before the reply, into the room its order left, so
  it can take the room of the reply: between 64 and 136 free bytes the notification fits, the
  reply does not, and the shop waits inside \<^verbatim>\<open>msgsnd\<close>.\<close>

theorem notification_blocks_reply:
  assumes "wf_inventory (w_inv w)" and "0 < w_sem w" and "\<not> q_removed (w_queue w)"
    and "order_notes (w_inv w) (cstr (om_item_name m)) (om_quantity m) \<noteq> []"
    and "q_used (w_queue w) + 64 \<le> q_limit (w_queue w)"
    and "q_limit (w_queue w) < q_used (w_queue w) + 64 + 72"
  shows "process_order f m w = Inl Blocked"
proof -
  let ?notes = "order_notes (w_inv w) (cstr (om_item_name m)) (om_quantity m)"
  from assms(5) have "q_used (w_queue w) + 64 \<le> q_limit (w_queue w) \<or> ?notes = []" by simp
  with assms(1-3) obtain m3 w3 where
    p: "process_order f m w = c_bind (send_response m3 w3) (\<lambda>w4. Inr (m3, w4))"
    and q: "w_queue w3 = (w_queue w)\<lparr>q_msgs := q_msgs (w_queue w) @ ?notes\<rparr>"
    by (rule process_order_run [of w m f])
  have "sum_list (map msg_size ?notes) = 64"
    using assms(4) by (auto simp: order_notes_def Let_def split: option.splits if_splits)
  with q assms(3,6) have "msgsnd (Order_Msg m3) (w_queue w3) = IPC_Again"
    by (simp add: msgsnd_def q_used_append)
  with p show ?thesis by (simp add: send_response_def)
qed

theorem notification_blocks_reply_witness:
  "process_order cents (shirt_order 50) (shirt_world 100) = Inl Blocked"
proof (rule notification_blocks_reply)
  show "order_notes (w_inv (shirt_world 100)) (cstr (om_item_name (shirt_order 50)))
      (om_quantity (shirt_order 50)) \<noteq> []"
    using store.find_some [OF wf_shirts find_shirts]
    by (simp add: order_notes_def get_shirts shirt_world_def shirt_order_def wrap32_def)
qed (simp_all add: shirt_world_def wf_shirts q_used_def)

text \<open>The shop does not check the quantity it is sent: an order of a negative quantity for an
  item in stock succeeds and adds that many pieces.\<close>

theorem negative_order_adds_stock:
  assumes "wf_inventory (w_inv w)" and "process_order f m w = Inr (m', w')"
    and "stock (w_inv w) (cstr (om_item_name m)) = Some n" and "0 \<le> n"
    and "om_quantity m < 0" and "n - om_quantity m \<le> 2147483647"
  shows "om_status m' = 1 \<and> stock (w_inv w') (cstr (om_item_name m)) = Some (n - om_quantity m)"
proof -
  from assms(4-6) have "wrap32 (n - om_quantity m) = n - om_quantity m"
    by (simp add: wrap32_nonneg_small)
  with process_order_stock [OF assms(1,2)] assms(3-5) show ?thesis
    by (simp add: order_spec_def)
qed

theorem negative_order_adds_stock_witness:
  "\<exists>m' w'. process_order cents (shirt_order (-5)) (shirt_world 1000) = Inr (m', w') \<and>
     om_status m' = 1 \<and> stock (w_inv w') ''Tshirt'' = Some 55"
proof -
  obtain m' w' where r: "process_order cents (shirt_order (-5)) (shirt_world 1000) = Inr (m', w')"
    by (simp add: shirt_eval)
  have "wf_inventory (w_inv (shirt_world 1000))"
    "stock (w_inv (shirt_world 1000)) (cstr (om_item_name (shirt_order (-5)))) = Some 50"
    by (simp_all add: shirt_world_def shirt_order_def wf_shirts stock_shirts)
  from negative_order_adds_stock [OF this(1) r this(2)] r show ?thesis
    by (simp add: shirt_order_def)
qed

section \<open>The loop keeps the stock sound\<close>

text \<open>The messages the three programs send; an order asks for a positive quantity.\<close>

fun msg_ok :: "'d msg \<Rightarrow> bool" where
  "msg_ok (Order_Msg m) \<longleftrightarrow>
     om_mtype m = MSG_RESPONSE \<or> (om_mtype m = MSG_ORDER \<and> 0 < om_quantity m)"
| "msg_ok (Notify_Msg m) \<longleftrightarrow>
     nm_mtype m = MSG_NOTIFY_LOW_STOCK \<or> nm_mtype m = MSG_NOTIFY_OUT_OF_STOCK"

definition shop_ok :: "'d world \<Rightarrow> bool" where
  "shop_ok w \<longleftrightarrow> wf_inventory (w_inv w) \<and> w_sem w = 1 \<and>
     (\<forall>m \<in> set (q_msgs (w_queue w)). msg_ok m) \<and>
     (\<forall>k n. stock (w_inv w) k = Some n \<longrightarrow> 0 \<le> n)"

lemma wf_inventory_stock_in32: "wf_inventory iv \<Longrightarrow> stock iv k = Some n \<Longrightarrow> in32 n"
  by (rule store.find_cases [of iv k]) (auto simp: stock_def item_ok_def)

lemma order_spec_nonneg:
  assumes "wf_inventory iv" and "\<forall>k n. stock iv k = Some n \<longrightarrow> 0 \<le> n" and "0 < q"
    and "order_spec (stock iv) name q = (b, st)" and "st k = Some n"
  shows "0 \<le> n"
proof -
  have "0 \<le> wrap32 (have' - q)" if "stock iv name = Some have'" "q \<le> have'" for have'
    using that wf_inventory_stock_in32 [OF assms(1) that(1)] assms(3)
    by (simp add: wrap32_nonneg_small in32_def)
  with assms show ?thesis by (auto simp: order_spec_def split: option.splits if_splits)
qed

lemma send_notification_msgs:
  "m \<in> set (q_msgs (send_notification nm n th ty q)) \<Longrightarrow>
   m \<in> set (q_msgs q) \<or> m = Notify_Msg (mk_notification nm n th ty)"
  by (auto simp: send_notification_def split: ipc_res.splits dest!: msgsnd_Ok_fields)

lemma order_item_msgs:
  "order_item f i m w = (m', w') \<Longrightarrow> \<forall>x \<in> set (q_msgs (w_queue w)). msg_ok x \<Longrightarrow>
   \<forall>x \<in> set (q_msgs (w_queue w')). msg_ok x"
  by (auto simp: order_item_def Let_def mk_notification_def split: if_splits
      dest!: send_notification_msgs)

lemma process_order_ok:
  assumes "shop_ok w" and "0 < om_quantity m" and "process_order f m w = Inr (m', w')"
  shows "shop_ok w'"
proof -
  from assms(1) have wf: "wf_inventory (w_inv w)" and nn: "\<forall>k n. stock (w_inv w) k = Some n \<longrightarrow> 0 \<le> n"
    and qs: "\<forall>x \<in> set (q_msgs (w_queue w)). msg_ok x" and sem: "w_sem w = 1"
    by (simp_all add: shop_ok_def)
  have st: "\<forall>k n. stock (w_inv w') k = Some n \<longrightarrow> 0 \<le> n"
    using order_spec_nonneg [OF wf nn assms(2)] process_order_stock [OF wf assms(3)]
    by (metis)
  show ?thesis
    using wf assms(3)
  proof (cases rule: process_order_cases)
    case (missing q)
    with wf qs st sem show ?thesis
      by (auto simp: shop_ok_def dest!: msgsnd_Ok_fields)
  next
    case (found i m2 w2 q)
    have "wf_inventory (w_inv (w\<lparr>w_sem := w_sem w - 1\<rparr>))"
      "find_item (w_inv (w\<lparr>w_sem := w_sem w - 1\<rparr>)) (cstr (om_item_name m)) = Inr (Some i)"
      using wf found(1) by simp_all
    note e = order_item_effect [OF this found(2)]
    with found order_item_msgs [OF found(2)] qs st sem show ?thesis
      by (auto simp: shop_ok_def dest!: msgsnd_Ok_fields)
  qed
qed

lemma shop_iteration_ok: "shop_ok w \<Longrightarrow> shop_iteration f w = Inr w' \<Longrightarrow> shop_ok w'"
proof -
  assume ok: "shop_ok w" and "shop_iteration f w = Inr w'"
  then have it: "(case msgrcv MSG_ORDER (w_queue w) of
        IPC_Ok (Order_Msg m, q) \<Rightarrow>
          c_bind (process_order f m (w\<lparr>w_queue := q\<rparr>)) (\<lambda>(_, w'). Inr w')
      | IPC_Ok (Notify_Msg _, _) \<Rightarrow> Inl Out_Of_Bounds
      | IPC_Again \<Rightarrow> Inr w
      | IPC_Error \<Rightarrow> Inr w) = Inr w'" by (simp add: shop_iteration_wf shop_ok_def)
  show "shop_ok w'"
  proof (cases "msgrcv MSG_ORDER (w_queue w)")
    case (IPC_Ok p)
    obtain x q where p: "p = (x, q)" by (cases p)
    with IPC_Ok it obtain m m' where x: "x = Order_Msg m"
      and po: "process_order f m (w\<lparr>w_queue := q\<rparr>) = Inr (m', w')"
      by (cases x) (auto simp: c_bind_Inr_iff)
    from IPC_Ok p x have ty: "om_mtype m = MSG_ORDER"
      and ms: "mset (q_msgs (w_queue w)) = add_mset (Order_Msg m) (mset (q_msgs q))"
      using mq.rcv_type [of MSG_ORDER "w_queue w"] mq.rcv_mset [of MSG_ORDER "w_queue w"] by auto
    then have "set (q_msgs (w_queue w)) = insert (Order_Msg m) (set (q_msgs q))"
      by (metis set_mset_add_mset_insert set_mset_mset)
    with ok ty have "shop_ok (w\<lparr>w_queue := q\<rparr>)" "0 < om_quantity m"
      by (auto simp: shop_ok_def MSG_ORDER_def MSG_RESPONSE_def)
    then show ?thesis using po by (rule process_order_ok)
  qed (use ok it in auto)
qed

text \<open>The only way a turn can fail is to wait for room in the queue.\<close>

lemma order_item_removed:
  "order_item f i m w = (m', w') \<Longrightarrow> q_removed (w_queue w') = q_removed (w_queue w)"
  by (auto simp: order_item_def Let_def send_notification_def dest!: msgsnd_Ok_fields
      split: if_splits ipc_res.splits)

lemma process_order_error:
  assumes "wf_inventory (w_inv w)" and "0 < w_sem w" and "\<not> q_removed (w_queue w)"
    and "process_order f m w = Inl e"
  shows "e = Blocked"
  using assms(1)
proof (cases rule: store.find_cases [of _ "cstr (om_item_name m)"])
  case 1
  with assms(2-4) show ?thesis
    by (auto simp: process_order_def shop_sem_lock_def shop_sem_unlock_def send_response_def msgsnd_def
        Let_def split: if_splits)
next
  case (2 i)
  obtain m2 w2 where o: "order_item f i (m\<lparr>om_status := 0\<rparr>) (w\<lparr>w_sem := w_sem w - 1\<rparr>) = (m2, w2)"
    by fastforce
  with 2 assms(2-4) order_item_removed [OF o] show ?thesis
    by (auto simp: process_order_def shop_sem_lock_def shop_sem_unlock_def send_response_def msgsnd_def
        Let_def split: if_splits)
qed

lemma shop_received:
  assumes "shop_ok w" and "msgrcv MSG_ORDER (w_queue w) = IPC_Ok (x, q)"
  obtains m where "x = Order_Msg m" and "0 < om_quantity m" and "shop_ok (w\<lparr>w_queue := q\<rparr>)"
    and "q_used (w_queue w) = q_used q + 72" and "q_limit q = q_limit (w_queue w)" and "\<not> q_removed q"
proof -
  have ty: "msg_type x = MSG_ORDER" using mq.rcv_type [OF assms(2)] .
  have "set (q_msgs (w_queue w)) = insert x (set (q_msgs q))"
    using mq.rcv_mset [OF assms(2)] by (metis set_mset_add_mset_insert set_mset_mset)
  with assms(1) have ok: "msg_ok x" "shop_ok (w\<lparr>w_queue := q\<rparr>)" by (auto simp: shop_ok_def)
  with ty obtain m where "x = Order_Msg m" "0 < om_quantity m" by (cases x) (auto simp: shop_consts)
  then show thesis using ok msgrcv_Ok_fields [OF assms(2)] by (intro that) auto
qed

lemma shop_iteration_error: "shop_ok w \<Longrightarrow> shop_iteration f w = Inl e \<Longrightarrow> e = Blocked"
proof -
  assume ok: "shop_ok w" and it: "shop_iteration f w = Inl e"
  show "e = Blocked"
  proof (cases "msgrcv MSG_ORDER (w_queue w)")
    case (IPC_Ok p)
    then obtain x q where p: "msgrcv MSG_ORDER (w_queue w) = IPC_Ok (x, q)" by (cases p) simp
    obtain m where m: "x = Order_Msg m" "shop_ok (w\<lparr>w_queue := q\<rparr>)" "\<not> q_removed q"
      by (rule shop_received [OF ok p])
    from ok it p m(1) have "process_order f m (w\<lparr>w_queue := q\<rparr>) = Inl e"
      by (cases "process_order f m (w\<lparr>w_queue := q\<rparr>)") (auto simp: shop_iteration_wf shop_ok_def)
    from process_order_error [OF _ _ _ this] m(2,3) show ?thesis by (simp add: shop_ok_def)
  qed (use ok it in \<open>auto simp: shop_iteration_wf shop_ok_def\<close>)
qed

text \<open>A turn with room: it handles its order, and the queue grows by a notification at most.\<close>

lemma shop_iteration_room:
  assumes "shop_ok w" and "q_used (w_queue w) + 64 \<le> q_limit (w_queue w)"
  obtains w' where "shop_iteration f w = Inr w'" and "q_used (w_queue w') \<le> q_used (w_queue w) + 64"
    and "q_limit (w_queue w') = q_limit (w_queue w)"
proof (cases "msgrcv MSG_ORDER (w_queue w)")
  case (IPC_Ok p)
  then obtain x q where p: "msgrcv MSG_ORDER (w_queue w) = IPC_Ok (x, q)" by (cases p) simp
  obtain m where m: "x = Order_Msg m" "shop_ok (w\<lparr>w_queue := q\<rparr>)" "\<not> q_removed q"
      "q_used (w_queue w) = q_used q + 72" "q_limit q = q_limit (w_queue w)"
    by (rule shop_received [OF assms(1) p])
  let ?notes = "order_notes (w_inv w) (cstr (om_item_name m)) (om_quantity m)"
  have pre: "wf_inventory (w_inv (w\<lparr>w_queue := q\<rparr>))" "0 < w_sem (w\<lparr>w_queue := q\<rparr>)"
    "\<not> q_removed (w_queue (w\<lparr>w_queue := q\<rparr>))"
    "q_used (w_queue (w\<lparr>w_queue := q\<rparr>)) + 64 + 72 \<le> q_limit (w_queue (w\<lparr>w_queue := q\<rparr>))"
    using m assms by (simp_all add: shop_ok_def)
  obtain m' w' where r: "process_order f m (w\<lparr>w_queue := q\<rparr>) = Inr (m', w')"
    "w_queue w' = q\<lparr>q_msgs := q_msgs q @ ?notes @ [Order_Msg m']\<rparr>"
    by (rule process_order_reply [OF pre, of f m]) simp
  have "q_used (w_queue w') = q_used q + sum_list (map msg_size (?notes @ [Order_Msg m']))"
    unfolding r(2) by (rule q_used_append)
  then have "q_used (w_queue w') \<le> q_used (w_queue w) + 64"
    using m(4) order_notes_size [of "w_inv w" "cstr (om_item_name m)" "om_quantity m"] by simp
  with p m r assms(1) show thesis by (intro that [of w']) (simp_all add: shop_iteration_wf shop_ok_def)
qed (use assms that in \<open>auto simp: shop_iteration_wf shop_ok_def\<close>)

text \<open>No turn adds to the stock.\<close>

lemma order_spec_le:
  assumes "wf_inventory iv" and "\<forall>k n. stock iv k = Some n \<longrightarrow> 0 \<le> n" and "0 < q"
    and "order_spec (stock iv) name q = (b, st)" and "st k = Some n"
  obtains h where "stock iv k = Some h" and "n \<le> h"
proof -
  have "wrap32 (h - q) \<le> h" if "stock iv name = Some h" "q \<le> h" for h
    using that wf_inventory_stock_in32 [OF assms(1) that(1)] assms(3)
    by (simp add: wrap32_nonneg_small in32_def)
  with assms(4,5) that show thesis by (auto simp: order_spec_def split: option.splits if_splits)
qed

lemma shop_iteration_le:
  assumes "shop_ok w" and "shop_iteration f w = Inr w'" and "stock (w_inv w') k = Some n"
  obtains h where "stock (w_inv w) k = Some h" and "n \<le> h"
proof (cases "msgrcv MSG_ORDER (w_queue w)")
  case (IPC_Ok p)
  then obtain x q where p: "msgrcv MSG_ORDER (w_queue w) = IPC_Ok (x, q)" by (cases p) simp
  obtain m where m: "x = Order_Msg m" "0 < om_quantity m" "shop_ok (w\<lparr>w_queue := q\<rparr>)"
    by (rule shop_received [OF assms(1) p])
  with p assms(1,2) obtain m' where po: "process_order f m (w\<lparr>w_queue := q\<rparr>) = Inr (m', w')"
    by (auto simp: shop_iteration_wf shop_ok_def c_bind_Inr_iff)
  have wf: "wf_inventory (w_inv (w\<lparr>w_queue := q\<rparr>))" using m(3) by (simp add: shop_ok_def)
  show thesis
    using order_spec_le [of "w_inv w" "om_quantity m" "cstr (om_item_name m)" "om_status m' = 1" "stock (w_inv w')" k n]
      process_order_stock [OF wf po] assms m(2) that by (auto simp: shop_ok_def)
qed (use assms that in \<open>auto simp: shop_iteration_wf shop_ok_def\<close>)

lemma stock_shirts_cases: "stock shirts k = Some n \<Longrightarrow> n = 50"
  by (auto simp: stock_def inv_map_def shirts_def zero_inventory_def MAX_ITEMS_def
      take_update_swap item_key_def split: if_splits)

definition shirt_queue_world :: "int world" where
  "shirt_queue_world = (shirt_world 1000)\<lparr>w_queue :=
     \<lparr>q_msgs = [Order_Msg (shirt_order 60), Order_Msg (shirt_order 20)], q_limit = 1000,
      q_removed = False\<rparr>\<rparr>"

lemma shop_ok_shirt_queue_world: "shop_ok shirt_queue_world"
  by (auto simp: shop_ok_def shirt_queue_world_def shirt_world_def shirt_order_def wf_shirts
      MSG_ORDER_def dest: stock_shirts_cases)

section \<open>No access outside the arrays\<close>

text \<open>A world that all three programs can work on without leaving the arrays.\<close>

definition world_safe :: "'d world \<Rightarrow> bool" where
  "world_safe w \<longleftrightarrow> wf_inventory (w_inv w) \<and> (\<forall>m \<in> set (q_msgs (w_queue w)). msg_ok m)"

lemma find_item_safe [c_safe]: "wf_inventory iv \<Longrightarrow> in_bounds (\<lambda>_. True) (find_item iv k)"
  by (rule store.find_cases [of iv k]) auto

lemma msgrcv_safe:
  assumes "world_safe w" and "msgrcv t (w_queue w) = IPC_Ok (x, q)"
  shows "world_safe (w\<lparr>w_queue := q\<rparr>)" and "msg_ok x" and "msg_type x = t"
proof -
  have "set (q_msgs (w_queue w)) = insert x (set (q_msgs q))"
    using mq.rcv_mset [OF assms(2)] by (metis set_mset_add_mset_insert set_mset_mset)
  with assms(1) show "world_safe (w\<lparr>w_queue := q\<rparr>)" "msg_ok x" by (auto simp: world_safe_def)
  show "msg_type x = t" by (rule mq.rcv_type [OF assms(2)])
qed

lemma msgsnd_safe: "world_safe w \<Longrightarrow> msg_ok m \<Longrightarrow> msgsnd m (w_queue w) = IPC_Ok q \<Longrightarrow>
  world_safe (w\<lparr>w_queue := q\<rparr>)"
  by (auto simp: world_safe_def dest!: msgsnd_Ok_fields)

lemma process_order_safe:
  assumes "world_safe w"
  shows "in_bounds (\<lambda>(_, w'). world_safe w') (process_order f m w)"
proof (cases "process_order f m w")
  case (Inr p)
  then obtain m' w' where r: "process_order f m w = Inr (m', w')" by (cases p) simp
  from assms have wf: "wf_inventory (w_inv w)" by (simp add: world_safe_def)
  then have "world_safe w'"
    using r
  proof (cases rule: process_order_cases)
    case (missing q)
    with assms show ?thesis by (auto simp: world_safe_def dest!: msgsnd_Ok_fields)
  next
    case (found i m2 w2 q)
    with order_item_msgs [OF found(2)] order_item_effect(1) [OF _ _ found(2)] assms show ?thesis
      by (auto simp: world_safe_def dest!: msgsnd_Ok_fields)
  qed
  with r show ?thesis by simp
next
  case (Inl e)
  have "wf_inventory (w_inv w)" using assms by (simp add: world_safe_def)
  from this Inl have "e \<noteq> Out_Of_Bounds"
    by (cases rule: store.find_cases [of _ "cstr (om_item_name m)"])
       (auto simp: process_order_def shop_sem_lock_def send_response_def Let_def
        split: if_splits ipc_res.splits prod.splits)
  with Inl show ?thesis by simp
qed

section \<open>Loading the inventory file\<close>

text \<open>The rows the file holds, at most \<open>n\<close> of them.\<close>

fun rows_upto :: "'d fp \<Rightarrow> nat \<Rightarrow> string \<Rightarrow> (string \<times> 'd \<times> int \<times> int) list" where
  "rows_upto f 0 s = []"
| "rows_upto f (Suc n) s =
     (case scan_row f s of (None, _) \<Rightarrow> [] | (Some row, r) \<Rightarrow> row # rows_upto f n r)"

lemma length_rows_upto: "length (rows_upto f n s) \<le> n"
  by (induction n arbitrary: s) (auto split: prod.splits option.splits)

lemma load_rows_spec:
  "idx \<le> length (inv_items iv) \<Longrightarrow>
   load_rows f s idx iv =
     (let free = length (inv_items iv) - idx; rs = rows_upto f (Suc free) s in
      if length rs \<le> free then
        Inr (idx + length rs, iv\<lparr>inv_items := take idx (inv_items iv) @
               map2 row_item (drop idx (inv_items iv)) rs @ drop (idx + length rs) (inv_items iv)\<rparr>)
      else Inl Out_Of_Bounds)"
proof (induction f s idx iv rule: load_rows.induct)
  case (1 f s idx iv)
  show ?case
  proof (cases "fst (scan_row f s)")
    case None
    then show ?thesis
      by (subst load_rows.simps) (auto simp: Let_def split: prod.splits)
  next
    case (Some row)
    then obtain r where sr: "scan_row f s = (Some row, r)" by (metis prod.collapse)
    show ?thesis
    proof (cases "length (inv_items iv) \<le> idx")
      case True
      with "1.prems" sr show ?thesis by (subst load_rows.simps) (simp add: Let_def)
    next
      case False
      let ?iv = "put_item iv idx (row_item (get_item iv idx) row)"
      have L: "length (inv_items ?iv) = length (inv_items iv)" by (simp add: put_item_def)
      from False have free: "length (inv_items iv) - idx = Suc (length (inv_items iv) - Suc idx)"
        by simp
      have d: "drop idx (inv_items iv) = get_item iv idx # drop (Suc idx) (inv_items iv)"
        using False by (simp add: Cons_nth_drop_Suc get_item_def)
      have t: "take (Suc idx) (inv_items ?iv) =
          take idx (inv_items iv) @ [row_item (get_item iv idx) row]"
        using False by (simp add: put_item_def take_Suc_conv_app_nth)
      from "1.IH" [OF sr [symmetric] refl False] False sr show ?thesis
        by (subst load_rows.simps)
          (simp add: Let_def L free d t, simp add: put_item_def)
    qed
  qed
qed

lemma scan_row_name: "scan_row f s = (Some (name, p, q, t), r) \<Longrightarrow> length name \<le> 49"
  by (auto simp: scan_row_def dest: scan_s_length split: prod.splits option.splits)

lemma rows_upto_name: "(name, p, q, t) \<in> set (rows_upto f n s) \<Longrightarrow> length name \<le> 49"
  by (induction n arbitrary: s)
    (auto dest: sym [THEN scan_row_name] split: prod.splits option.splits)

lemma item_key_row_item: "length name \<le> 49 \<Longrightarrow> item_key (row_item old (name, p, q, t)) = cstr name"
proof -
  assume "length name \<le> 49"
  moreover have "length (cstr name) \<le> length name" by (simp add: cstr_def length_takeWhile_le)
  moreover have "cstr (name @ [NUL]) = cstr name"
    by (induction name) auto
  ultimately show ?thesis
    by (simp add: item_key_def row_item_def cstr_safe_strncpy MAX_ITEM_NAME_def)
qed

lemma map2_replicate: "length rs \<le> n \<Longrightarrow> map2 g (replicate n z) rs = map (g z) rs"
proof (induction rs arbitrary: n)
  case (Cons r rs)
  then show ?case by (cases n) auto
qed simp

lemma load_inventory_zero:
  "load_inventory f (Some s) (zero_inventory f) =
     (let rs = rows_upto f (Suc MAX_ITEMS) s in
      if length rs \<le> MAX_ITEMS then
        Inr \<lparr>inv_items = map (row_item (zero_item f)) rs @
                             replicate (MAX_ITEMS - length rs) (zero_item f),
             inv_item_count = int (length rs), inv_updates_pending = 0\<rparr>
      else Inl Out_Of_Bounds)"
  by (simp add: load_inventory_def load_rows_spec zero_inventory_def Let_def map2_replicate)

lemma load_inventory_spec:
  "case load_inventory f (Some s) (zero_inventory f) of
     Inr iv \<Rightarrow> length (rows_upto f (Suc MAX_ITEMS) s) \<le> MAX_ITEMS \<and>
       inv_item_count iv = int (length (rows_upto f (Suc MAX_ITEMS) s)) \<and>
       stock iv = map_of (map (\<lambda>(name, p, q, t). (cstr name, q)) (rows_upto f (Suc MAX_ITEMS) s))
   | Inl e \<Rightarrow> e = Out_Of_Bounds \<and> MAX_ITEMS < length (rows_upto f (Suc MAX_ITEMS) s)"
proof -
  let ?rs = "rows_upto f (Suc MAX_ITEMS) s"
  have key: "map (\<lambda>it. (item_key it, it)) (map (row_item (zero_item f)) rs) =
      map (\<lambda>(name, p, q, t). (cstr name, row_item (zero_item f) (name, p, q, t))) rs"
    if "set rs \<subseteq> set ?rs" for rs
    using that by (auto intro!: item_key_row_item rows_upto_name [of _ _ _ _ f "Suc MAX_ITEMS" s]
        simp del: rows_upto.simps)
  have "map_option it_quantity
      (map_of (map (\<lambda>(name, p, q, t). (cstr name, row_item (zero_item f) (name, p, q, t))) rs) k) =
      map_of (map (\<lambda>(name, p, q, t). (cstr name, q)) rs) k" for rs k
    by (induction rs) (auto simp: row_item_def)
  then show ?thesis
    using key [of ?rs]
    by (auto simp: load_inventory_zero Let_def stock_def inv_map_def fun_eq_iff simp del: map_map rows_upto.simps)
qed

text \<open>C33: Loading a file of at most 100 rows into the fresh segment makes the stock the map from
  the names in the file to their quantities (the first row of a name counts); from the 101st
  row on the loop writes behind the array.\<close>

theorem load_inventory_stock:
  "case load_inventory f (Some s) (zero_inventory f) of
     Inr iv \<Rightarrow> length (rows_upto f (Suc MAX_ITEMS) s) \<le> MAX_ITEMS \<and>
       inv_item_count iv = int (length (rows_upto f (Suc MAX_ITEMS) s)) \<and>
       stock iv = map_of (map (\<lambda>(name, p, q, t). (cstr name, q)) (rows_upto f (Suc MAX_ITEMS) s))
   | Inl e \<Rightarrow> e = Out_Of_Bounds \<and> MAX_ITEMS < length (rows_upto f (Suc MAX_ITEMS) s)"
  by (rule load_inventory_spec)

lemma scan_row_in32: "scan_row f s = (Some (name, p, q, t), r) \<Longrightarrow> in32 q \<and> in32 t"
  by (auto simp: scan_row_def dest: scan_d_in32 split: prod.splits option.splits)

lemma rows_upto_in32: "(name, p, q, t) \<in> set (rows_upto f n s) \<Longrightarrow> in32 q \<and> in32 t"
  by (induction n arbitrary: s)
    (auto dest: sym [THEN scan_row_in32] split: prod.splits option.splits)

lemma row_item_ok:
  "in32 q \<Longrightarrow> in32 t \<Longrightarrow> item_ok (row_item (zero_item f) (name, p, q, t))"
  by (simp add: item_ok_def row_item_def length_safe_strncpy terminated_safe_strncpy zero_item_def
      MAX_ITEM_NAME_def)

lemma load_inventory_wf:
  assumes "load_inventory f (Some s) (zero_inventory f) = Inr iv"
  shows "wf_inventory iv"
proof -
  have "item_ok (row_item (zero_item f) row)" if "row \<in> set (rows_upto f (Suc MAX_ITEMS) s)" for row
  proof -
    obtain name p q t where r: "row = (name, p, q, t)" by (cases row)
    from that rows_upto_in32 [of name p q t f "Suc MAX_ITEMS" s] show ?thesis
      unfolding r by (intro row_item_ok) blast+
  qed
  moreover have "item_ok (zero_item f)"
    using wf_zero_inventory [of f] by (simp add: wf_inventory_def zero_inventory_def MAX_ITEMS_def)
  ultimately show ?thesis
    using assms by (auto simp: load_inventory_zero Let_def wf_inventory_def simp del: rows_upto.simps
        split: if_splits)
qed

section \<open>The program from start to end\<close>

lemma shop_init_world:
  assumes "shop_init_semaphore ftok k = Inr k1" and "shop_init_shared_memory f ftok k1 = Inr k2"
    and "shop_init_message_queue ftok k2 = Inr k3"
  shows "w_inv (world_at ftok k3) = zero_inventory f" and "w_sem (world_at ftok k3) = 1"
    and "w_queue (world_at ftok k3) = (case ipc_msg k (get_key ftok (CHR ''C'')) of
        Some q \<Rightarrow> q | None \<Rightarrow> \<lparr>q_msgs = [], q_limit = ipc_msgmnb k, q_removed = False\<rparr>)"
    and "put_world ftok w k3 = put_world ftok w k"
  using assms
  by (auto simp: shop_init_semaphore_def shop_init_shared_memory_def shop_init_message_queue_def Let_def
      c_bind_Inr_iff world_at_def put_world_def dest!: ipc_creat_Inr)

lemma shop_init_error:
  "c_bind (shop_init_semaphore ftok k) (\<lambda>k1. c_bind (shop_init_shared_memory f ftok k1)
     (shop_init_message_queue ftok)) = Inl e \<Longrightarrow> e = Exit_Failure \<and> ipc_full k"
  by (auto simp: shop_init_semaphore_def shop_init_shared_memory_def shop_init_message_queue_def Let_def
      c_bind_Inl_iff c_bind_Inr_iff ipc_creat_def split: option.splits if_splits)

lemma shop_cleanup_put: "shop_cleanup ftok (put_world ftok w k) = shop_cleanup ftok k"
  by (simp add: shop_cleanup_def put_world_def)

lemma shop_main_init:
  obtains (failed) "shop_main f ftok file early turns k = Inl Exit_Failure" and "ipc_full k"
  | (made) q where "shop_main f ftok file early turns k =
      c_bind (load_inventory f file (zero_inventory f)) (\<lambda>iv.
      c_bind (shop_loop f (\<not> early) turns \<lparr>w_inv = iv, w_queue = q, w_sem = 1\<rparr>) (\<lambda>(running, w').
        Inr (running, if running then put_world ftok w' k else shop_cleanup ftok k)))"
    and "q = (case ipc_msg k (get_key ftok (CHR ''C'')) of
        Some q \<Rightarrow> q | None \<Rightarrow> \<lparr>q_msgs = [], q_limit = ipc_msgmnb k, q_removed = False\<rparr>)"
proof (cases "c_bind (shop_init_semaphore ftok k) (\<lambda>k1. c_bind (shop_init_shared_memory f ftok k1)
     (shop_init_message_queue ftok))")
  case (Inl e)
  note e = shop_init_error [OF Inl]
  from Inl have "shop_main f ftok file early turns k = Inl e"
    by (auto simp: shop_main_def c_bind_Inl_iff)
  with e failed show thesis by simp
next
  case (Inr k3)
  then obtain k1 k2 where i: "shop_init_semaphore ftok k = Inr k1" "shop_init_shared_memory f ftok k1 = Inr k2"
    "shop_init_message_queue ftok k2 = Inr k3" by (auto simp: c_bind_Inr_iff)
  note w = shop_init_world [OF i]
  have p: "put_world ftok w' k3 = put_world ftok w' k" for w' by (rule shop_init_world(4) [OF i])
  have c: "shop_cleanup ftok k3 = shop_cleanup ftok k"
    by (metis p shop_cleanup_put)
  let ?q = "w_queue (world_at ftok k3)"
  have "(world_at ftok k3)\<lparr>w_inv := iv\<rparr> = \<lparr>w_inv = iv, w_queue = ?q, w_sem = 1\<rparr>" for iv
    using w(2) by simp
  with made [of ?q] i w(1,3) show thesis
    by (simp add: shop_main_def p c shop_cleanup_put Let_def cong: if_cong)
qed

text \<open>A kernel without IPC objects, and one row of the inventory file.\<close>

definition no_ipc :: "'d ipc" where
  "no_ipc = \<lparr>ipc_shm = (\<lambda>_. None), ipc_sem = (\<lambda>_. None), ipc_msg = (\<lambda>_. None),
     ipc_msgmnb = 1000, ipc_full = False\<rparr>"

definition sample_ftok :: "string \<Rightarrow> char \<Rightarrow> int" where
  "sample_ftok path c = int (of_char c)"

lemma load_one_row:
  "\<exists>iv. load_inventory cents (Some ''Tshirt 29.99 50 10'') (zero_inventory cents) = Inr iv \<and>
     stock iv = [''Tshirt'' \<mapsto> 50]"
proof -
  have r: "rows_upto cents (Suc MAX_ITEMS) ''Tshirt 29.99 50 10'' = [(''Tshirt'', 2999, 50, 10)]"
    by code_simp
  then show ?thesis
    using load_inventory_spec [of cents "''Tshirt 29.99 50 10''"]
    by (auto simp: MAX_ITEMS_def cstr_def simp del: rows_upto.simps split: sum.splits)
qed

end
