(* ===== verification/Customer_Process.thy ===== *)
theory Customer_Process
  imports Shop_Process
begin

text \<open>
  \<^verbatim>\<open>IPC/customer_process.c\<close>: the customer's cart, its menu, and the checkout, which
  sends one order per cart line and waits for the reply. What the other processes do while
  the customer waits in \<^verbatim>\<open>msgrcv\<close> is the argument \<open>serve\<close>; the shop's own loop
  body \<open>shop_iteration\<close> is put there to verify the checkout end to end. The lines
  printed are values of \<open>cust_out\<close>; the prompts are left out.
\<close>

section \<open>The cart\<close>

definition MAX_CART_ITEMS :: nat where "MAX_CART_ITEMS = 10"

record 'd cart_item =
  ci_name :: "char list"
  ci_quantity :: int
  ci_unit_price :: 'd

record 'd shopping_cart =
  ct_items :: "'d cart_item list"
  ct_item_count :: int
  ct_total_price :: 'd

record 'd customer =
  cu_cart :: "'d shopping_cart"
  cu_stdin :: string
  cu_pid :: int

datatype 'd cust_out =
    Show_Items "(string \<times> int \<times> 'd) list" | Show_Cart "(string \<times> int \<times> 'd \<times> 'd) list" 'd
  | Cart_Empty | Cart_Full | Invalid_Input | Invalid_Quantity | Invalid_Choice
  | Added int string | Insufficient_Stock int | Item_Not_Found
  | Checkout_Cancelled | Send_Failed | Receive_Failed | Item_Failed string
  | Checkout_Successful 'd | Checkout_Failed | Cart_Cleared | Operation_Cancelled

definition zero_cart_item :: "'d fp \<Rightarrow> 'd cart_item" where
  "zero_cart_item f = \<lparr>ci_name = replicate MAX_ITEM_NAME NUL, ci_quantity = 0,
                       ci_unit_price = fp_zero f\<rparr>"

text \<open>\<^verbatim>\<open>{0}\<close> and \<^verbatim>\<open>memset(&cart, 0, sizeof(struct shopping_cart))\<close>.\<close>

definition zero_cart :: "'d fp \<Rightarrow> 'd shopping_cart" where
  "zero_cart f = \<lparr>ct_items = replicate MAX_CART_ITEMS (zero_cart_item f), ct_item_count = 0,
                  ct_total_price = fp_zero f\<rparr>"

section \<open>Displays\<close>

definition display_available_items :: "'d shared_inventory \<Rightarrow> 'd cust_out list c_res" where
  "display_available_items iv =
     (if int (length (inv_items iv)) < inv_item_count iv then Inl Out_Of_Bounds
      else Inr [Show_Items (map (\<lambda>it. (cstr (it_name it), it_quantity it, it_price it))
                              (take (nat (inv_item_count iv)) (inv_items iv)))])"

definition display_cart :: "'d fp \<Rightarrow> 'd shopping_cart \<Rightarrow> 'd cust_out list c_res" where
  "display_cart f ct =
     (if ct_item_count ct = 0 then Inr [Cart_Empty]
      else if int (length (ct_items ct)) < ct_item_count ct then Inl Out_Of_Bounds
      else Inr [Show_Cart (map (\<lambda>ci. (cstr (ci_name ci), ci_quantity ci, ci_unit_price ci,
                                     fp_mul f (fp_of_int f (ci_quantity ci)) (ci_unit_price ci)))
                              (take (nat (ct_item_count ct)) (ct_items ct)))
                  (ct_total_price ct)])"

section \<open>Adding to the cart\<close>

text \<open>The assignments at \<^verbatim>\<open>cart.items[cart.item_count]\<close>.\<close>

definition cart_add :: "'d fp \<Rightarrow> string \<Rightarrow> int \<Rightarrow> 'd \<Rightarrow> 'd shopping_cart \<Rightarrow> 'd shopping_cart c_res" where
  "cart_add f item_name quantity price ct =
     (if ct_item_count ct < 0 \<or> int (length (ct_items ct)) \<le> ct_item_count ct then Inl Out_Of_Bounds
      else
        let i = nat (ct_item_count ct); old = ct_items ct ! i in
        Inr (ct\<lparr>ct_items := (ct_items ct)[i :=
                  \<lparr>ci_name = safe_strncpy (ci_name old) (item_name @ [NUL]) MAX_ITEM_NAME,
                   ci_quantity = quantity, ci_unit_price = price\<rparr>],
                ct_total_price := fp_add f (ct_total_price ct) (fp_mul f (fp_of_int f quantity) price),
                ct_item_count := ct_item_count ct + 1\<rparr>))"

definition add_to_cart :: "'d fp \<Rightarrow> 'd shared_inventory \<Rightarrow> 'd customer \<Rightarrow>
    ('d customer \<times> 'd cust_out list) c_res" where
  "add_to_cart f iv c =
     (if ct_item_count (cu_cart c) \<ge> int MAX_CART_ITEMS then Inr (c, [Cart_Full])
      else c_bind (display_available_items iv) (\<lambda>shown.
      (case scan_s 49 (cu_stdin c) of
         (None, r) \<Rightarrow> Inr (c\<lparr>cu_stdin := r\<rparr>, shown @ [Invalid_Input])
       | (Some item_name, r1) \<Rightarrow>
      (case scan_d r1 of
         (None, r) \<Rightarrow> Inr (c\<lparr>cu_stdin := r\<rparr>, shown @ [Invalid_Quantity])
       | (Some quantity, r2) \<Rightarrow>
         if quantity \<le> 0 then Inr (c\<lparr>cu_stdin := r2\<rparr>, shown @ [Invalid_Quantity])
         else c_bind (find_item iv (cstr item_name)) (\<lambda>found.
         (case found of
            None \<Rightarrow> Inr (c\<lparr>cu_stdin := r2\<rparr>, shown @ [Item_Not_Found])
          | Some i \<Rightarrow>
              if it_quantity (get_item iv i) \<ge> quantity then
                c_bind (cart_add f item_name quantity (it_price (get_item iv i)) (cu_cart c))
                  (\<lambda>ct. Inr (c\<lparr>cu_cart := ct, cu_stdin := r2\<rparr>, shown @ [Added quantity item_name]))
              else Inr (c\<lparr>cu_stdin := r2\<rparr>,
                        shown @ [Insufficient_Stock (it_quantity (get_item iv i))])))))))"

section \<open>Checkout\<close>

definition mk_order :: "'d fp \<Rightarrow> int \<Rightarrow> 'd cart_item \<Rightarrow> 'd order_msg" where
  "mk_order f pid ci =
     \<lparr>om_mtype = MSG_ORDER,
      om_item_name = safe_strncpy (replicate MAX_ITEM_NAME NUL) (ci_name ci) MAX_ITEM_NAME,
      om_quantity = ci_quantity ci, om_price = fp_zero f, om_customer_pid = pid, om_status = 0\<rparr>"

text \<open>
  \<^verbatim>\<open>msgsnd\<close> without \<^verbatim>\<open>IPC_NOWAIT\<close>: when the queue is full it waits, while the other processes
  go on (\<open>serve\<close>), and is blocked when there is no room even then. The flag says whether the order
  is sent.
\<close>

definition send_order :: "('d world \<Rightarrow> 'd world c_res) \<Rightarrow> 'd order_msg \<Rightarrow> 'd world \<Rightarrow> (bool \<times> 'd world) c_res" where
  "send_order serve m w =
     (case msgsnd (Order_Msg m) (w_queue w) of
        IPC_Ok q \<Rightarrow> Inr (True, w\<lparr>w_queue := q\<rparr>)
      | IPC_Error \<Rightarrow> Inr (False, w)
      | IPC_Again \<Rightarrow> c_bind (serve w) (\<lambda>w1.
          (case msgsnd (Order_Msg m) (w_queue w1) of
             IPC_Ok q \<Rightarrow> Inr (True, w1\<lparr>w_queue := q\<rparr>)
           | IPC_Error \<Rightarrow> Inr (False, w1)
           | IPC_Again \<Rightarrow> Inl Blocked)))"

text \<open>
  The loop over the cart; the flag is \<^verbatim>\<open>all_success\<close>. \<open>serve\<close> runs between sending and
  receiving, and when there is no reply after it the customer is blocked.
\<close>

function checkout_loop :: "'d fp \<Rightarrow> ('d world \<Rightarrow> 'd world c_res) \<Rightarrow> int \<Rightarrow> 'd shopping_cart \<Rightarrow> nat \<Rightarrow>
    'd world \<Rightarrow> (bool \<times> 'd cust_out list \<times> 'd world) c_res" where
  "checkout_loop f serve pid ct i w =
     (if int i < ct_item_count ct then
        if length (ct_items ct) \<le> i then Inl Out_Of_Bounds
        else c_bind (send_order serve (mk_order f pid (ct_items ct ! i)) w) (\<lambda>(sent, w0).
          if \<not> sent then Inr (False, [Send_Failed], w0)
          else c_bind (serve w0) (\<lambda>w1.
          (case msgrcv MSG_RESPONSE (w_queue w1) of
             IPC_Error \<Rightarrow> Inr (False, [Receive_Failed], w1)
           | IPC_Again \<Rightarrow> Inl Blocked
           | IPC_Ok (Notify_Msg _, _) \<Rightarrow> Inl Out_Of_Bounds
           | IPC_Ok (Order_Msg m, q2) \<Rightarrow>
               if om_status m = 0 then
                 Inr (False, [Item_Failed (cstr (ci_name (ct_items ct ! i)))], w1\<lparr>w_queue := q2\<rparr>)
               else checkout_loop f serve pid ct (Suc i) (w1\<lparr>w_queue := q2\<rparr>))))
      else Inr (True, [], w))"
  by pat_completeness auto
termination
  by (relation "measure (\<lambda>(f, serve, pid, ct, i, w). nat (ct_item_count ct - int i))") auto

declare checkout_loop.simps [simp del]

lemma send_order_room [simp]:
  "msgsnd (Order_Msg m) (w_queue w) = IPC_Ok q \<Longrightarrow> send_order serve m w = Inr (True, w\<lparr>w_queue := q\<rparr>)"
  by (simp add: send_order_def)

definition confirmed :: "char option \<Rightarrow> bool" where
  "confirmed c \<longleftrightarrow> c = Some (CHR ''y'') \<or> c = Some (CHR ''Y'')"

definition checkout :: "'d fp \<Rightarrow> ('d world \<Rightarrow> 'd world c_res) \<Rightarrow> 'd customer \<Rightarrow> 'd world \<Rightarrow>
    ('d customer \<times> 'd cust_out list \<times> 'd world) c_res" where
  "checkout f serve c w =
     (if ct_item_count (cu_cart c) = 0 then Inr (c, [Cart_Empty], w)
      else c_bind (display_cart f (cu_cart c)) (\<lambda>shown.
      (case discard_line (cu_stdin c) of
         None \<Rightarrow> Inl Diverges
       | Some r \<Rightarrow>
      (case scan_c r of (confirm, r2) \<Rightarrow>
         if \<not> confirmed confirm then Inr (c\<lparr>cu_stdin := r2\<rparr>, shown @ [Checkout_Cancelled], w)
         else c_bind (checkout_loop f serve (cu_pid c) (cu_cart c) 0 w) (\<lambda>(all_success, outs, w').
           if all_success then
             Inr (c\<lparr>cu_cart := zero_cart f, cu_stdin := r2\<rparr>,
                  shown @ outs @ [Checkout_Successful (ct_total_price (cu_cart c))], w')
           else Inr (c\<lparr>cu_stdin := r2\<rparr>, shown @ outs @ [Checkout_Failed], w'))))))"

definition clear_cart :: "'d fp \<Rightarrow> 'd customer \<Rightarrow> ('d customer \<times> 'd cust_out list) c_res" where
  "clear_cart f c =
     (if ct_item_count (cu_cart c) = 0 then Inr (c, [Cart_Empty])
      else (case discard_line (cu_stdin c) of
              None \<Rightarrow> Inl Diverges
            | Some r \<Rightarrow>
           (case scan_c r of (confirm, r2) \<Rightarrow>
              if confirmed confirm then
                Inr (c\<lparr>cu_cart := zero_cart f, cu_stdin := r2\<rparr>, [Cart_Cleared])
              else Inr (c\<lparr>cu_stdin := r2\<rparr>, [Operation_Cancelled]))))"

section \<open>The menu\<close>

text \<open>One turn of the loop of \<^verbatim>\<open>main\<close>; the flag says whether it goes on.\<close>

definition customer_iteration :: "'d fp \<Rightarrow> ('d world \<Rightarrow> 'd world c_res) \<Rightarrow> 'd customer \<Rightarrow> 'd world \<Rightarrow>
    (bool \<times> 'd customer \<times> 'd cust_out list \<times> 'd world) c_res" where
  "customer_iteration f serve c w =
     (case scan_d (cu_stdin c) of
        (None, r) \<Rightarrow>
          (case discard_line r of
             None \<Rightarrow> Inl Diverges
           | Some r2 \<Rightarrow> Inr (True, c\<lparr>cu_stdin := r2\<rparr>, [Invalid_Input], w))
      | (Some choice, r) \<Rightarrow>
          let c1 = c\<lparr>cu_stdin := r\<rparr> in
          if choice = 1 then
            c_bind (display_available_items (w_inv w)) (\<lambda>outs. Inr (True, c1, outs, w))
          else if choice = 2 then
            c_bind (add_to_cart f (w_inv w) c1) (\<lambda>(c2, outs). Inr (True, c2, outs, w))
          else if choice = 3 then
            c_bind (display_cart f (cu_cart c1)) (\<lambda>outs. Inr (True, c1, outs, w))
          else if choice = 4 then
            c_bind (clear_cart f c1) (\<lambda>(c2, outs). Inr (True, c2, outs, w))
          else if choice = 5 then
            c_bind (checkout f serve c1 w) (\<lambda>(c2, outs, w2). Inr (True, c2, outs, w2))
          else if choice = 6 then Inr (False, c1, [], w)
          else Inr (True, c1, [Invalid_Choice], w))"

text \<open>
  The loop, with what the other processes do to the shared objects before each turn, while the
  customer waits for input.
\<close>

fun customer_loop :: "'d fp \<Rightarrow> ('d world \<Rightarrow> 'd world c_res) \<Rightarrow> ('d world \<Rightarrow> 'd world) list \<Rightarrow> 'd customer \<Rightarrow>
    'd world \<Rightarrow> ('d customer \<times> 'd cust_out list \<times> 'd world) c_res" where
  "customer_loop f serve [] c w = Inr (c, [], w)"
| "customer_loop f serve (others # turns) c w =
     c_bind (customer_iteration f serve c (others w)) (\<lambda>(go, c1, outs, w1).
       if go then c_bind (customer_loop f serve turns c1 w1) (\<lambda>(c2, outs2, w2). Inr (c2, outs @ outs2, w2))
       else Inr (c1, outs, w1))"

definition cust_init_shared_memory :: "(string \<Rightarrow> char \<Rightarrow> int) \<Rightarrow> 'd ipc \<Rightarrow> 'd shared_inventory c_res" where
  "cust_init_shared_memory ftok k = ipc_find (get_key ftok (CHR ''A'')) (ipc_shm k)"

definition cust_init_message_queue :: "(string \<Rightarrow> char \<Rightarrow> int) \<Rightarrow> 'd ipc \<Rightarrow> 'd msgq c_res" where
  "cust_init_message_queue ftok k = ipc_find (get_key ftok (CHR ''C'')) (ipc_msg k)"

text \<open>
  The program, with the input \<open>stdin\<close>; the cart is static and starts as zeroes. It never asks
  for the semaphore, which only the others see.
\<close>

definition customer_main :: "'d fp \<Rightarrow> (string \<Rightarrow> char \<Rightarrow> int) \<Rightarrow> ('d world \<Rightarrow> 'd world c_res) \<Rightarrow>
    ('d world \<Rightarrow> 'd world) list \<Rightarrow> string \<Rightarrow> int \<Rightarrow> 'd ipc \<Rightarrow> ('d customer \<times> 'd cust_out list \<times> 'd world) c_res" where
  "customer_main f ftok serve turns stdin pid k =
     c_bind (cust_init_shared_memory ftok k) (\<lambda>inventory.
     c_bind (cust_init_message_queue ftok k) (\<lambda>queue.
       customer_loop f serve turns \<lparr>cu_cart = zero_cart f, cu_stdin = stdin, cu_pid = pid\<rparr>
         \<lparr>w_inv = inventory, w_queue = queue, w_sem = w_sem (world_at ftok k)\<rparr>))"

section \<open>The cart stays well formed\<close>

definition cart_lines :: "'d shopping_cart \<Rightarrow> 'd cart_item list" where
  "cart_lines ct = take (nat (ct_item_count ct)) (ct_items ct)"

definition cart_total :: "'d fp \<Rightarrow> 'd cart_item list \<Rightarrow> 'd" where
  "cart_total f cis = foldl (\<lambda>t ci. fp_add f t
     (fp_mul f (fp_of_int f (ci_quantity ci)) (ci_unit_price ci))) (fp_zero f) cis"

definition line_ok :: "'d cart_item \<Rightarrow> bool" where
  "line_ok ci \<longleftrightarrow> terminated (ci_name ci) \<and> 0 < ci_quantity ci \<and> in32 (ci_quantity ci)"

definition wf_cart :: "'d fp \<Rightarrow> 'd shopping_cart \<Rightarrow> bool" where
  "wf_cart f ct \<longleftrightarrow> length (ct_items ct) = MAX_CART_ITEMS \<and>
     0 \<le> ct_item_count ct \<and> ct_item_count ct \<le> int MAX_CART_ITEMS \<and>
     (\<forall>ci \<in> set (ct_items ct). length (ci_name ci) = MAX_ITEM_NAME) \<and>
     (\<forall>ci \<in> set (cart_lines ct). line_ok ci) \<and>
     ct_total_price ct = cart_total f (cart_lines ct)"

lemma wf_zero_cart: "wf_cart f (zero_cart f)"
  by (auto simp: wf_cart_def zero_cart_def zero_cart_item_def cart_lines_def cart_total_def)

lemma cart_add_wf:
  assumes "wf_cart f ct" and "cart_add f name n p ct = Inr ct'" and "0 < n" and "in32 n"
    and "ct_item_count ct < int MAX_CART_ITEMS"
  shows "wf_cart f ct'"
    and "\<exists>b. cart_lines ct' = cart_lines ct @ [\<lparr>ci_name = b, ci_quantity = n, ci_unit_price = p\<rparr>] \<and>
             cstr b = take 49 (cstr (name @ [NUL]))"
proof -
  let ?i = "nat (ct_item_count ct)"
  let ?b = "safe_strncpy (ci_name (ct_items ct ! ?i)) (name @ [NUL]) MAX_ITEM_NAME"
  let ?l = "\<lparr>ci_name = ?b, ci_quantity = n, ci_unit_price = p\<rparr>"
  from assms(1,5) have i: "?i < length (ct_items ct)" "0 \<le> ct_item_count ct"
    by (auto simp: wf_cart_def)
  from assms(2) i have ct': "ct' = ct\<lparr>ct_items := (ct_items ct)[?i := ?l],
      ct_total_price := fp_add f (ct_total_price ct) (fp_mul f (fp_of_int f n) p),
      ct_item_count := ct_item_count ct + 1\<rparr>"
    by (auto simp: cart_add_def Let_def split: if_splits)
  from i have lines: "cart_lines ct' = cart_lines ct @ [?l]"
    by (simp add: ct' cart_lines_def nat_add_distrib take_Suc_conv_app_nth)
  have "cstr ?b = take 49 (cstr (name @ [NUL]))"
    by (simp add: cstr_safe_strncpy MAX_ITEM_NAME_def)
  with lines show "\<exists>b. cart_lines ct' = cart_lines ct @ [\<lparr>ci_name = b, ci_quantity = n, ci_unit_price = p\<rparr>] \<and>
      cstr b = take 49 (cstr (name @ [NUL]))" by blast
  have "length ?b = MAX_ITEM_NAME"
    using assms(1) i by (intro length_safe_strncpy) (auto simp: MAX_ITEM_NAME_def wf_cart_def)
  moreover have "line_ok ?l" using assms(3,4) by (simp add: line_ok_def terminated_safe_strncpy)
  moreover have "ct_total_price ct' = cart_total f (cart_lines ct')"
    using assms(1) by (simp add: lines) (simp add: ct' wf_cart_def cart_total_def)
  ultimately show "wf_cart f ct'"
    using assms(1,5) unfolding wf_cart_def lines
    by (auto simp: ct' dest!: set_update_subset_insert [THEN subsetD])
qed

lemma add_to_cart_cases:
  assumes "add_to_cart f iv c = Inr (c', outs)"
  shows "cu_cart c' = cu_cart c \<or>
    (\<exists>name n i. cart_add f name n (it_price (get_item iv i)) (cu_cart c) = Inr (cu_cart c') \<and>
       0 < n \<and> in32 n \<and> find_item iv (cstr name) = Inr (Some i) \<and>
       n \<le> it_quantity (get_item iv i) \<and> ct_item_count (cu_cart c) < int MAX_CART_ITEMS)"
proof -
  obtain w1 r1 where s1: "scan_s 49 (cu_stdin c) = (w1, r1)" by fastforce
  obtain w2 r2 where s2: "scan_d r1 = (w2, r2)" by fastforce
  show ?thesis
  proof (cases "ct_item_count (cu_cart c) \<ge> int MAX_CART_ITEMS \<or> w1 = None \<or> w2 = None")
    case True
    with assms show ?thesis
      by (cases w1; cases w2) (auto simp: add_to_cart_def s1 s2 c_bind_Inr_iff split: if_splits)
  next
    case False
    then obtain name n where "w1 = Some name" "w2 = Some n"
      "ct_item_count (cu_cart c) < int MAX_CART_ITEMS" by auto
    with assms s2 scan_d_in32 [of r1 n r2] show ?thesis
      by (auto simp: add_to_cart_def s1 c_bind_Inr_iff split: if_splits option.splits)
  qed
qed

lemma add_to_cart_wf:
  assumes "wf_cart f (cu_cart c)" and "add_to_cart f iv c = Inr (c', outs)"
  shows "wf_cart f (cu_cart c')"
  using add_to_cart_cases [OF assms(2)] assms(1) by (auto intro: cart_add_wf(1))

lemma checkout_cart:
  assumes "checkout f serve c w = Inr (c', outs, w')"
  shows "cu_cart c' = cu_cart c \<or> cu_cart c' = zero_cart f"
proof (cases "discard_line (cu_stdin c)")
  case (Some r)
  obtain a r2 where "scan_c r = (a, r2)" by fastforce
  with Some assms show ?thesis by (auto simp: checkout_def c_bind_Inr_iff split: if_splits)
qed (use assms in \<open>auto simp: checkout_def c_bind_Inr_iff split: if_splits\<close>)

lemma checkout_wf:
  "wf_cart f (cu_cart c) \<Longrightarrow> checkout f serve c w = Inr (c', outs, w') \<Longrightarrow> wf_cart f (cu_cart c')"
  using wf_zero_cart checkout_cart by metis

lemma clear_cart_wf:
  "wf_cart f (cu_cart c) \<Longrightarrow> clear_cart f c = Inr (c', outs) \<Longrightarrow> wf_cart f (cu_cart c')"
  by (auto simp: clear_cart_def wf_zero_cart split: if_splits option.splits prod.splits)

lemma customer_iteration_wf:
  assumes "wf_cart f (cu_cart c)" and "customer_iteration f serve c w = Inr (go, c', outs, w')"
  shows "wf_cart f (cu_cart c')"
proof -
  have "wf_cart f (cu_cart (c\<lparr>cu_stdin := r\<rparr>))" for r using assms(1) by simp
  with assms(2) show ?thesis
    by (auto simp: customer_iteration_def c_bind_Inr_iff Let_def
        dest: add_to_cart_wf [rotated] checkout_wf [rotated] clear_cart_wf [rotated]
        split: prod.splits option.splits if_splits)
qed

text \<open>
  No array is accessed outside its bounds, when the shared memory is well formed, the messages in
  the queue are those of the three programs, and the other processes keep it so.
\<close>

definition serve_safe :: "('d world \<Rightarrow> 'd world c_res) \<Rightarrow> bool" where
  "serve_safe serve \<longleftrightarrow> (\<forall>w. world_safe w \<longrightarrow> in_bounds world_safe (serve w))"

lemma display_available_items_safe [c_safe]:
  "wf_inventory iv \<Longrightarrow> in_bounds (\<lambda>_. True) (display_available_items iv)"
  by (simp add: display_available_items_def wf_inventory_def)

lemma display_cart_safe [c_safe]: "wf_cart f ct \<Longrightarrow> in_bounds (\<lambda>_. True) (display_cart f ct)"
  by (simp add: display_cart_def wf_cart_def)

lemma cart_add_safe [c_safe]:
  "wf_cart f ct \<Longrightarrow> ct_item_count ct < int MAX_CART_ITEMS \<Longrightarrow> in_bounds (\<lambda>_. True) (cart_add f name n p ct)"
  by (simp add: cart_add_def wf_cart_def Let_def)

lemma add_to_cart_safe [c_safe]:
  assumes "wf_cart f (cu_cart c)" and "wf_inventory iv"
  shows "in_bounds (\<lambda>_. True) (add_to_cart f iv c)"
  using assms
  by (auto simp: add_to_cart_def not_le intro!: in_bounds_bind [where P = "\<lambda>_. True"]
      c_safe split: prod.splits option.splits)

lemma send_order_safe:
  assumes "serve_safe serve" and "world_safe w" and "msg_ok (Order_Msg m)"
  shows "in_bounds (\<lambda>(_, w'). world_safe w') (send_order serve m w)"
proof (cases "msgsnd (Order_Msg m) (w_queue w)")
  case IPC_Again
  have "in_bounds world_safe (serve w)" using assms(1,2) by (simp add: serve_safe_def)
  then show ?thesis
    by (auto simp: send_order_def IPC_Again intro: msgsnd_safe [OF _ assms(3)] intro!: in_bounds_bind split: ipc_res.splits)
qed (use assms(2) msgsnd_safe [OF assms(2,3)] in \<open>simp_all add: send_order_def\<close>)

lemma checkout_loop_safe:
  assumes "wf_cart f ct" and "serve_safe serve" and "world_safe w"
  shows "in_bounds (\<lambda>(_, _, w'). world_safe w') (checkout_loop f serve pid ct i w)"
  using assms(3)
proof (induction "nat (ct_item_count ct) - i" arbitrary: i w)
  case 0
  then show ?case by (subst checkout_loop.simps) auto
next
  case (Suc k)
  let ?ci = "ct_items ct ! i"
  from Suc(2) have "i < nat (ct_item_count ct)" by simp
  with assms(1) have i: "int i < ct_item_count ct" "i < length (ct_items ct)" "i < length (cart_lines ct)"
    by (auto simp: wf_cart_def cart_lines_def)
  then have "?ci \<in> set (cart_lines ct)" by (metis cart_lines_def nth_mem nth_take length_take min_less_iff_conj)
  then have "line_ok ?ci" using assms(1) by (simp add: wf_cart_def)
  then have ok: "msg_ok (Order_Msg (mk_order f pid ?ci))" by (simp add: mk_order_def line_ok_def)
  let ?next = "\<lambda>w1. case msgrcv MSG_RESPONSE (w_queue w1) of
      IPC_Error \<Rightarrow> Inr (False, [Receive_Failed], w1)
    | IPC_Again \<Rightarrow> Inl Blocked
    | IPC_Ok (Notify_Msg _, _) \<Rightarrow> Inl Out_Of_Bounds
    | IPC_Ok (Order_Msg m, q2) \<Rightarrow>
        if om_status m = 0 then Inr (False, [Item_Failed (cstr (ci_name ?ci))], w1\<lparr>w_queue := q2\<rparr>)
        else checkout_loop f serve pid ct (Suc i) (w1\<lparr>w_queue := q2\<rparr>)"
  have next': "in_bounds (\<lambda>(_, _, w'). world_safe w') (?next w1)" if ws: "world_safe w1" for w1
  proof (cases "msgrcv MSG_RESPONSE (w_queue w1)")
    case r: (IPC_Ok p)
    then obtain x q2 where p: "msgrcv MSG_RESPONSE (w_queue w1) = IPC_Ok (x, q2)" by (cases p) simp
    note safe = msgrcv_safe [OF ws p]
    then obtain m where m: "x = Order_Msg m" by (cases x) (auto simp: shop_consts)
    have "in_bounds (\<lambda>(_, _, w'). world_safe w') (checkout_loop f serve pid ct (Suc i) (w1\<lparr>w_queue := q2\<rparr>))"
      by (rule Suc.hyps(1)) (use Suc(2) safe in auto)
    with p m safe(1) show ?thesis by simp
  qed (use ws in auto)
  have served: "in_bounds (\<lambda>(_, _, w'). world_safe w') (c_bind (serve w0) ?next)" if "world_safe w0" for w0
    using assms(2) that by (intro in_bounds_bind [where P = world_safe] next') (auto simp: serve_safe_def)
  have "in_bounds (\<lambda>(_, _, w'). world_safe w') (c_bind (send_order serve (mk_order f pid ?ci) w) (\<lambda>(sent, w0).
      if \<not> sent then Inr (False, [Send_Failed], w0) else c_bind (serve w0) ?next))"
    by (rule in_bounds_bind [OF send_order_safe [OF assms(2) Suc.prems ok]]) (use served in \<open>auto split: prod.splits\<close>)
  with i show ?case by (subst checkout_loop.simps) simp
qed

lemma checkout_safe:
  assumes "wf_cart f (cu_cart c)" and "serve_safe serve" and "world_safe w"
  shows "in_bounds (\<lambda>(_, _, w'). world_safe w') (checkout f serve c w)"
proof -
  have "in_bounds (\<lambda>(_, _, w'). world_safe w')
      (c_bind (checkout_loop f serve (cu_pid c) (cu_cart c) 0 w) (\<lambda>(all_success, outs, w').
        if all_success then Inr (g1 outs w') else Inr (g2 outs w')))"
    if "\<And>outs w'. snd (snd (g1 outs w')) = w' \<and> snd (snd (g2 outs w')) = w'"
    for g1 g2 :: "'a cust_out list \<Rightarrow> 'a world \<Rightarrow> 'a customer \<times> 'a cust_out list \<times> 'a world"
    by (rule in_bounds_bind [OF checkout_loop_safe [OF assms]]) (use that in \<open>auto simp: case_prod_beta\<close>)
  with assms show ?thesis
    by (auto simp: checkout_def intro!: in_bounds_bind [OF display_cart_safe] split: option.splits prod.splits)
qed

lemma clear_cart_safe [c_safe]: "in_bounds (\<lambda>_. True) (clear_cart f c)"
  by (auto simp: clear_cart_def split: option.splits prod.splits)

lemma customer_iteration_safe:
  assumes "wf_cart f (cu_cart c)" and "serve_safe serve" and "world_safe w"
  shows "in_bounds (\<lambda>(_, _, _, w'). world_safe w') (customer_iteration f serve c w)"
proof -
  have wf: "wf_cart f (cu_cart (c\<lparr>cu_stdin := r\<rparr>))" "wf_inventory (w_inv w)" for r
    using assms by (simp_all add: world_safe_def)
  note safe = display_available_items_safe [OF wf(2)] add_to_cart_safe [OF wf] display_cart_safe [OF assms(1)]
    clear_cart_safe checkout_safe [OF wf(1) assms(2,3)]
  show ?thesis
    using assms(3)
    by (auto simp: customer_iteration_def Let_def split: prod.splits option.splits
        intro!: safe [THEN in_bounds_bind])
qed

lemma customer_loop_safe:
  assumes "serve_safe serve"
  shows "wf_cart f (cu_cart c) \<Longrightarrow> world_safe w \<Longrightarrow> list_all (\<lambda>act. \<forall>w. world_safe w \<longrightarrow> world_safe (act w)) turns \<Longrightarrow>
    in_bounds (\<lambda>(_, _, w'). world_safe w') (customer_loop f serve turns c w)"
proof (induction turns arbitrary: c w)
  case (Cons others turns)
  then have ws: "world_safe (others w)" by simp
  have "in_bounds (\<lambda>(_, _, w'). world_safe w') (case y of (go, c1, outs, w1) \<Rightarrow>
      if go then c_bind (customer_loop f serve turns c1 w1) (\<lambda>(c2, outs2, w2). Inr (c2, outs @ outs2, w2))
      else Inr (c1, outs, w1))"
    if y: "customer_iteration f serve c (others w) = Inr y" and "(\<lambda>(_, _, _, w'). world_safe w') y" for y
  proof -
    obtain go c1 outs w1 where y': "y = (go, c1, outs, w1)" by (metis prod.exhaust)
    with y that(2) have "wf_cart f (cu_cart c1)" "world_safe w1"
      using customer_iteration_wf [OF Cons.prems(1)] by auto
    with Cons.IH [of c1 w1] Cons.prems(3) y' show ?thesis
      by (auto intro!: in_bounds_bind [where P = "\<lambda>(_, _, w'). world_safe w'"])
  qed
  then show ?case
    unfolding customer_loop.simps
    by (rule in_bounds_bind [OF customer_iteration_safe [OF Cons.prems(1) assms ws]])
qed simp

text \<open>C8: Whatever the customer types and whatever the other processes do, after any number of
  menu turns the cart is well formed: at most 10 lines, names terminated within their buffers,
  positive quantities, and the total is the sum that the lines give in floating point. When the
  other processes keep the shared memory well formed and send only the messages of the three
  programs, no turn accesses an array outside its bounds.\<close>

theorem customer_loop_wf_cart:
  assumes "wf_cart f (cu_cart c)"
  shows "(\<forall>c' outs w'. customer_loop f serve turns c w = Inr (c', outs, w') \<longrightarrow> wf_cart f (cu_cart c')) \<and>
    (serve_safe serve \<and> world_safe w \<and> list_all (\<lambda>act. \<forall>w. world_safe w \<longrightarrow> world_safe (act w)) turns \<longrightarrow>
       customer_loop f serve turns c w \<noteq> Inl Out_Of_Bounds)"
proof (intro conjI allI impI)
  show "wf_cart f (cu_cart c')" if "customer_loop f serve turns c w = Inr (c', outs, w')" for c' outs w'
    using assms that
    by (induction turns arbitrary: c w outs)
      (auto simp: c_bind_Inr_iff dest: customer_iteration_wf split: if_splits)
  assume a: "serve_safe serve \<and> world_safe w \<and> list_all (\<lambda>act. \<forall>w. world_safe w \<longrightarrow> world_safe (act w)) turns"
  from customer_loop_safe [of serve f c w turns] a assms show "customer_loop f serve turns c w \<noteq> Inl Out_Of_Bounds"
    unfolding in_bounds_iff by blast
qed

text \<open>The shop is such a process.\<close>

lemma serve_safe_shop: "serve_safe (shop_iteration f)"
  unfolding serve_safe_def
proof (intro allI impI)
  fix w :: "'a world" assume ws: "world_safe w"
  then have wf: "wf_inventory (w_inv w)" by (simp add: world_safe_def)
  show "in_bounds world_safe (shop_iteration f w)"
  proof (cases "msgrcv MSG_ORDER (w_queue w)")
    case (IPC_Ok p)
    then obtain x q where p: "msgrcv MSG_ORDER (w_queue w) = IPC_Ok (x, q)" by (cases p) simp
    note safe = msgrcv_safe [OF ws p]
    then obtain m where "x = Order_Msg m" by (cases x) (auto simp: shop_consts)
    with p wf show ?thesis
      by (auto simp: shop_iteration_wf intro!: in_bounds_bind [OF process_order_safe [OF safe(1)]])
  qed (use ws wf in \<open>auto simp: shop_iteration_wf\<close>)
qed

definition shopper :: "string \<Rightarrow> int customer" where
  "shopper input = \<lparr>cu_cart = zero_cart cents, cu_stdin = input, cu_pid = 7\<rparr>"

theorem customer_loop_wf_cart_witness:
  "\<exists>c' outs w'. customer_loop cents (shop_iteration cents) [\<lambda>w. w, \<lambda>w. w, \<lambda>w. w] (shopper ''2 Tshirt 8 3 6'')
     (shirt_world 1000) = Inr (c', outs, w') \<and> ct_total_price (cu_cart c') = 23992 \<and>
     wf_cart cents (cu_cart c')"
proof -
  have wf: "wf_cart cents (cu_cart (shopper input))" for input
    by (simp add: shopper_def wf_zero_cart)
  have "case customer_loop cents (shop_iteration cents) [\<lambda>w. w, \<lambda>w. w, \<lambda>w. w] (shopper ''2 Tshirt 8 3 6'')
      (shirt_world 1000) of Inr (c', outs, w') \<Rightarrow> ct_total_price (cu_cart c') = 23992 | Inl _ \<Rightarrow> False"
    by code_simp
  then obtain c' outs w' where r: "customer_loop cents (shop_iteration cents) [\<lambda>w. w, \<lambda>w. w, \<lambda>w. w]
      (shopper ''2 Tshirt 8 3 6'') (shirt_world 1000) = Inr (c', outs, w')"
    and t: "ct_total_price (cu_cart c') = 23992"
    by (auto split: sum.splits)
  from r t customer_loop_wf_cart [OF wf] show ?thesis by blast
qed

section \<open>Checkout against the shop\<close>

text \<open>The abstract checkout: the lines one after the other, up to the first that fails.\<close>

fun checkout_spec :: "(string \<Rightarrow> int option) \<Rightarrow> (string \<times> int) list \<Rightarrow>
    bool \<times> (string \<Rightarrow> int option)" where
  "checkout_spec st [] = (True, st)"
| "checkout_spec st ((name, n) # ls) =
     (case order_spec st name n of (b, st') \<Rightarrow> if b then checkout_spec st' ls else (False, st'))"

definition line_order :: "'d cart_item \<Rightarrow> string \<times> int" where
  "line_order ci = (cstr (ci_name ci), ci_quantity ci)"

text \<open>Nobody else's order or reply is in the queue.\<close>

definition quiet :: "'d msgq \<Rightarrow> bool" where
  "quiet q \<longleftrightarrow> \<not> q_removed q \<and>
     (\<forall>m \<in> set (q_msgs q). msg_type m \<noteq> MSG_ORDER \<and> msg_type m \<noteq> MSG_RESPONSE)"

lemma msgrcv_last:
  "\<not> q_removed q \<Longrightarrow> q_msgs q = ms @ [m] \<Longrightarrow> msg_type m = t \<Longrightarrow> \<forall>x \<in> set ms. msg_type x \<noteq> t \<Longrightarrow>
   msgrcv t q = IPC_Ok (m, q\<lparr>q_msgs := ms\<rparr>)"
  using take_first_append [of ms "\<lambda>m. msg_type m = t" m "[]"] by (simp add: msgrcv_def)

lemma order_notes_types:
  "m \<in> set (order_notes iv name n) \<Longrightarrow>
   msg_type m = MSG_NOTIFY_LOW_STOCK \<or> msg_type m = MSG_NOTIFY_OUT_OF_STOCK"
  by (auto simp: order_notes_def Let_def stock_note_def split: option.splits if_splits)

lemma process_order_status:
  assumes "wf_inventory (w_inv w)" and "process_order f m w = Inr (m', w')"
  shows "om_status m' = 0 \<or> om_status m' = 1"
  using assms
proof (cases rule: process_order_cases)
  case (found i m2 w2 q)
  then show ?thesis by (auto simp: order_item_def Let_def split: if_splits)
qed simp

text \<open>One order of a lone customer, from \<^verbatim>\<open>msgsnd\<close> to the reply.\<close>

lemma order_roundtrip:
  assumes "shop_ok w" and "quiet (w_queue w)" and "om_mtype m = MSG_ORDER" and "0 < om_quantity m"
    and "q_used (w_queue w) + 72 + 64 \<le> q_limit (w_queue w)"
  obtains q1 w1 m' q2 where "msgsnd (Order_Msg m) (w_queue w) = IPC_Ok q1"
    and "shop_iteration f (w\<lparr>w_queue := q1\<rparr>) = Inr w1"
    and "msgrcv MSG_RESPONSE (w_queue w1) = IPC_Ok (Order_Msg m', q2)"
    and "(om_status m' = 1, stock (w_inv w1)) =
         order_spec (stock (w_inv w)) (cstr (om_item_name m)) (om_quantity m)"
    and "om_status m' = 0 \<or> om_status m' = 1"
    and "shop_ok (w1\<lparr>w_queue := q2\<rparr>)" and "quiet q2"
    and "q_limit q2 = q_limit (w_queue w)" and "q_used q2 \<le> q_used (w_queue w) + 64"
proof -
  let ?q = "w_queue w"
  let ?q1 = "?q\<lparr>q_msgs := q_msgs ?q @ [Order_Msg m]\<rparr>"
  let ?notes = "order_notes (w_inv w) (cstr (om_item_name m)) (om_quantity m)"
  from assms(2) have nr: "\<not> q_removed ?q" by (simp add: quiet_def)
  from assms(1) have wf: "wf_inventory (w_inv w)" and sem: "0 < w_sem w" by (simp_all add: shop_ok_def)
  have snd: "msgsnd (Order_Msg m) ?q = IPC_Ok ?q1" using nr assms(5) by (simp add: msgsnd_room)
  have rcv: "msgrcv MSG_ORDER ?q1 = IPC_Ok (Order_Msg m, ?q)"
    using msgrcv_last [of ?q1 "q_msgs ?q" "Order_Msg m" MSG_ORDER] nr assms(2,3)
    by (simp add: quiet_def)
  have "q_used ?q + 64 + 72 \<le> q_limit ?q" using assms(5) by simp
  with wf sem nr obtain m' w1 where po: "process_order f m w = Inr (m', w1)"
    and q': "w_queue w1 = ?q\<lparr>q_msgs := q_msgs ?q @ ?notes @ [Order_Msg m']\<rparr>"
    and m': "om_mtype m' = MSG_RESPONSE"
    by (rule process_order_reply)
  let ?q2 = "?q\<lparr>q_msgs := q_msgs ?q @ ?notes\<rparr>"
  have it: "shop_iteration f (w\<lparr>w_queue := ?q1\<rparr>) = Inr w1"
    using wf by (simp add: shop_iteration_wf rcv po)
  have n: "\<forall>x \<in> set ?notes. msg_type x \<noteq> MSG_RESPONSE \<and> msg_type x \<noteq> MSG_ORDER"
    by (auto simp: shop_consts dest!: order_notes_types)
  have qt: "quiet ?q2" using assms(2) n by (auto simp: quiet_def)
  have rsp: "msgrcv MSG_RESPONSE (w_queue w1) = IPC_Ok (Order_Msg m', ?q2)"
    using msgrcv_last [of "w_queue w1" "q_msgs ?q @ ?notes" "Order_Msg m'" MSG_RESPONSE] nr q' m' qt
    by (simp add: quiet_def)
  have "shop_ok w1" by (rule process_order_ok [OF assms(1,4) po])
  then have ok: "shop_ok (w1\<lparr>w_queue := ?q2\<rparr>)" using q' by (auto simp: shop_ok_def)
  have used: "q_used ?q2 \<le> q_used ?q + 64"
    using order_notes_size [of "w_inv w" "cstr (om_item_name m)" "om_quantity m"]
    by (simp add: q_used_append)
  show thesis
    by (rule that [OF snd it rsp process_order_stock [OF wf po] process_order_status [OF wf po]
          ok qt _ used]) simp
qed

lemma checkout_loop_shop:
  assumes "wf_cart f ct" and "shop_ok w" and "quiet (w_queue w)" and "i \<le> nat (ct_item_count ct)"
    and "q_used (w_queue w) + 72 + 64 * (nat (ct_item_count ct) - i) \<le> q_limit (w_queue w)"
  shows "\<exists>b outs w'. checkout_loop f (shop_iteration f) pid ct i w = Inr (b, outs, w') \<and>
    (b, stock (w_inv w')) =
      checkout_spec (stock (w_inv w)) (map line_order (drop i (cart_lines ct))) \<and>
    shop_ok w' \<and> quiet (w_queue w')"
  using assms(2-5)
proof (induction "nat (ct_item_count ct) - i" arbitrary: i w)
  case 0
  then have "\<not> int i < ct_item_count ct" and "drop i (cart_lines ct) = []"
    by (auto simp: cart_lines_def)
  with 0 show ?case by (subst checkout_loop.simps) auto
next
  case (Suc k)
  let ?ci = "ct_items ct ! i"
  let ?m = "mk_order f pid ?ci"
  from Suc(2) have i: "i < nat (ct_item_count ct)" by simp
  with assms(1) have il: "i < length (ct_items ct)" and ii: "int i < ct_item_count ct"
    by (auto simp: wf_cart_def)
  have mem: "?ci \<in> set (cart_lines ct)"
    using i il by (auto simp: cart_lines_def in_set_conv_nth intro!: exI [of _ i])
  then have "line_ok ?ci" using assms(1) by (simp add: wf_cart_def)
  moreover have "length (ci_name ?ci) = MAX_ITEM_NAME" using assms(1) il by (simp add: wf_cart_def)
  ultimately have nm: "cstr (om_item_name ?m) = cstr (ci_name ?ci)" and qt: "0 < om_quantity ?m"
    using length_cstr_terminated [of "ci_name ?ci"]
    by (simp_all add: mk_order_def cstr_safe_strncpy line_ok_def MAX_ITEM_NAME_def)
  have ty: "om_mtype ?m = MSG_ORDER" by (simp add: mk_order_def)
  have room: "q_used (w_queue w) + 72 + 64 \<le> q_limit (w_queue w)"
    using Suc.prems(4) Suc(2) by simp
  obtain q1 w1 m' q2 where snd: "msgsnd (Order_Msg ?m) (w_queue w) = IPC_Ok q1"
    and it: "shop_iteration f (w\<lparr>w_queue := q1\<rparr>) = Inr w1"
    and rsp: "msgrcv MSG_RESPONSE (w_queue w1) = IPC_Ok (Order_Msg m', q2)"
    and spec: "(om_status m' = 1, stock (w_inv w1)) =
         order_spec (stock (w_inv w)) (cstr (om_item_name ?m)) (om_quantity ?m)"
    and st: "om_status m' = 0 \<or> om_status m' = 1"
    and ok: "shop_ok (w1\<lparr>w_queue := q2\<rparr>)" and qq: "quiet q2"
    and lim: "q_limit q2 = q_limit (w_queue w)" and used: "q_used q2 \<le> q_used (w_queue w) + 64"
    by (rule order_roundtrip [OF Suc.prems(1,2) ty qt room, of f])
  have lines: "map line_order (drop i (cart_lines ct)) =
      (cstr (ci_name ?ci), ci_quantity ?ci) # map line_order (drop (Suc i) (cart_lines ct))"
  proof -
    have "i < length (cart_lines ct)" "cart_lines ct ! i = ?ci"
      using i il by (simp_all add: cart_lines_def)
    then show ?thesis by (simp add: Cons_nth_drop_Suc [symmetric] line_order_def)
  qed
  have q: "om_quantity ?m = ci_quantity ?ci" by (simp add: mk_order_def)
  show ?case
  proof (cases "om_status m' = 1")
    case False
    with st have "om_status m' = 0" by simp
    with spec nm q lines snd it rsp il ii ok qq show ?thesis
      by (subst checkout_loop.simps) (auto simp: split: prod.splits)
  next
    case True
    have "\<exists>b outs w'. checkout_loop f (shop_iteration f) pid ct (Suc i) (w1\<lparr>w_queue := q2\<rparr>) =
        Inr (b, outs, w') \<and> (b, stock (w_inv w')) =
        checkout_spec (stock (w_inv (w1\<lparr>w_queue := q2\<rparr>))) (map line_order (drop (Suc i) (cart_lines ct))) \<and>
        shop_ok w' \<and> quiet (w_queue w')"
      using ok qq i lim used Suc(2) Suc.prems(4) by (intro Suc.hyps(1)) simp_all
    with True spec nm q lines snd it rsp il ii show ?thesis
      by (subst checkout_loop.simps) (auto simp: split: prod.splits)
  qed
qed

text \<open>What the cart asks of each item, and when the stock has it.\<close>

definition demand :: "(string \<times> int) list \<Rightarrow> string \<Rightarrow> int" where
  "demand ls k = sum_list (map snd (filter (\<lambda>l. fst l = k) ls))"

definition in_stock :: "(string \<Rightarrow> int option) \<Rightarrow> (string \<times> int) list \<Rightarrow> bool" where
  "in_stock st ls \<longleftrightarrow>
     list_all (\<lambda>l. case st (fst l) of None \<Rightarrow> False | Some n \<Rightarrow> demand ls (fst l) \<le> n) ls"

definition sane_stock :: "(string \<Rightarrow> int option) \<Rightarrow> bool" where
  "sane_stock st \<longleftrightarrow> (\<forall>k n. st k = Some n \<longrightarrow> 0 \<le> n \<and> in32 n)"

lemma demand_Nil [simp]: "demand [] k = 0"
  by (simp add: demand_def)

lemma demand_Cons [simp]: "demand ((a, n) # ls) k = (if a = k then n else 0) + demand ls k"
  by (simp add: demand_def)

lemma demand_nonneg: "\<forall>l \<in> set ls. 0 < snd l \<Longrightarrow> 0 \<le> demand ls k"
  by (induction ls) auto

lemma in_stock_iff:
  "in_stock st ls \<longleftrightarrow> (\<forall>l \<in> set ls. \<exists>n. st (fst l) = Some n \<and> demand ls (fst l) \<le> n)"
  by (auto simp: in_stock_def list_all_iff split: option.splits)

lemma sane_stock_order:
  assumes "sane_stock st" and "st k = Some h" and "0 < n" and "n \<le> h"
  shows "order_spec st k n = (True, st(k \<mapsto> h - n))" and "sane_stock (st(k \<mapsto> h - n))"
proof -
  from assms(1,2) have "0 \<le> h \<and> in32 h" by (simp add: sane_stock_def)
  with assms(3,4) have "0 \<le> h - n" "h - n \<le> 2147483647" by (auto simp: in32_def)
  then have "in32 (h - n)" by (simp add: in32_def)
  with assms \<open>0 \<le> h - n\<close> show "order_spec st k n = (True, st(k \<mapsto> h - n))"
    and "sane_stock (st(k \<mapsto> h - n))"
    by (auto simp: order_spec_def sane_stock_def)
qed

lemma checkout_spec_fits:
  assumes "sane_stock st" and "\<forall>l \<in> set ls. 0 < snd l" and "in_stock st ls"
  shows "checkout_spec st ls = (True, \<lambda>k. map_option (\<lambda>n. n - demand ls k) (st k))"
  using assms
proof (induction ls arbitrary: st)
  case (Cons l ls)
  obtain k n where l: "l = (k, n)" by (cases l)
  from Cons.prems(3) l obtain h where h: "st k = Some h" "n + demand ls k \<le> h"
    by (auto simp: in_stock_iff)
  have nn: "0 \<le> demand ls k" "0 < n" using Cons.prems(2) l by (auto intro: demand_nonneg)
  with h have o: "order_spec st k n = (True, st(k \<mapsto> h - n))" "sane_stock (st(k \<mapsto> h - n))"
    using sane_stock_order [OF Cons.prems(1) h(1), of n] by auto
  have "in_stock (st(k \<mapsto> h - n)) ls"
    using Cons.prems(3) l h by (auto simp: in_stock_iff split: if_splits)
  with Cons.IH [OF o(2)] Cons.prems(2) have
    "checkout_spec (st(k \<mapsto> h - n)) ls = (True, \<lambda>k'. map_option (\<lambda>n. n - demand ls k') ((st(k \<mapsto> h - n)) k'))"
    by (simp del: fun_upd_apply)
  with o h l show ?case by (auto simp: fun_eq_iff)
qed (simp add: option.map_ident)

lemma checkout_spec_success:
  assumes "sane_stock st" and "\<forall>l \<in> set ls. 0 < snd l" and "checkout_spec st ls = (True, st')"
  shows "in_stock st ls"
  using assms
proof (induction ls arbitrary: st)
  case (Cons l ls)
  obtain k n where l: "l = (k, n)" by (cases l)
  from Cons.prems(3) l obtain h where h: "st k = Some h" "n \<le> h"
    by (auto simp: order_spec_def split: option.splits if_splits)
  have n: "0 < n" using Cons.prems(2) l by simp
  note o = sane_stock_order [OF Cons.prems(1) h(1) n h(2)]
  from Cons.prems(2,3) o l have i: "in_stock (st(k \<mapsto> h - n)) ls"
    by (intro Cons.IH) (simp_all del: fun_upd_apply)
  have "demand ls k \<le> h - n"
  proof (cases "k \<in> fst ` set ls")
    case True
    with i show ?thesis by (auto simp: in_stock_iff)
  next
    case False
    then have "filter (\<lambda>l. fst l = k) ls = []" by (force simp: filter_empty_conv)
    with h show ?thesis by (simp add: demand_def)
  qed
  with i l h show ?case by (auto simp: in_stock_iff split: if_splits)
qed (simp add: in_stock_iff)

lemma checkout_spec_append:
  "checkout_spec st (xs @ ys) =
     (case checkout_spec st xs of (b, st') \<Rightarrow> if b then checkout_spec st' ys else (False, st'))"
  by (induction xs arbitrary: st) (auto split: prod.splits)

lemma shop_ok_sane: "shop_ok w \<Longrightarrow> sane_stock (stock (w_inv w))"
  by (auto simp: shop_ok_def sane_stock_def wf_inventory_stock_in32)

lemma cart_lines_positive: "wf_cart f ct \<Longrightarrow> \<forall>l \<in> set (map line_order (cart_lines ct)). 0 < snd l"
  by (auto simp: wf_cart_def line_order_def line_ok_def)

text \<open>The checkout of a lone customer who confirms it, with room in the queue.\<close>

lemma checkout_run:
  assumes "wf_cart f (cu_cart c)" and "ct_item_count (cu_cart c) \<noteq> 0" and "shop_ok w"
    and "quiet (w_queue w)" and "q_used (w_queue w) + 712 \<le> q_limit (w_queue w)"
    and "discard_line (cu_stdin c) = Some (CHR ''y'' # rest)"
  obtains b outs w' where "checkout f (shop_iteration f) c w =
      Inr (c\<lparr>cu_cart := (if b then zero_cart f else cu_cart c), cu_stdin := rest\<rparr>,
           outs @ [if b then Checkout_Successful (ct_total_price (cu_cart c)) else Checkout_Failed], w')"
    and "(b, stock (w_inv w')) =
      checkout_spec (stock (w_inv w)) (map line_order (cart_lines (cu_cart c)))"
    and "shop_ok w'"
proof -
  from assms(1) have len: "ct_item_count (cu_cart c) \<le> 10" "length (ct_items (cu_cart c)) = 10"
    by (simp_all add: wf_cart_def MAX_CART_ITEMS_def)
  then have "q_used (w_queue w) + 72 + 64 * (nat (ct_item_count (cu_cart c)) - 0) \<le> q_limit (w_queue w)"
    using assms(5) by linarith
  from checkout_loop_shop [OF assms(1,3,4) _ this, of "cu_pid c"]
  obtain b outs w' where
    l: "checkout_loop f (shop_iteration f) (cu_pid c) (cu_cart c) 0 w = Inr (b, outs, w')"
    and s: "(b, stock (w_inv w')) =
      checkout_spec (stock (w_inv w)) (map line_order (cart_lines (cu_cart c)))" and "shop_ok w'"
    by auto
  obtain shown where d: "display_cart f (cu_cart c) = Inr shown"
    using len assms(2) by (auto simp: display_cart_def)
  show thesis
    using assms(2,6) d l
    by (intro that [OF _ s \<open>shop_ok w'\<close>, of "shown @ outs"])
      (simp add: checkout_def confirmed_def)
qed

definition shirt_cart :: "int list \<Rightarrow> int shopping_cart" where
  "shirt_cart ns = foldl (\<lambda>ct n. case cart_add cents ''Tshirt'' n 2999 ct of Inr ct' \<Rightarrow> ct' | Inl _ \<Rightarrow> ct)
     (zero_cart cents) ns"

definition shirt_shopper :: "int list \<Rightarrow> int customer" where
  "shirt_shopper ns = \<lparr>cu_cart = shirt_cart ns, cu_stdin = ''\<newline>y'', cu_pid = 7\<rparr>"

lemma shop_ok_shirt_world: "shop_ok (shirt_world n)"
  by (auto simp: shop_ok_def shirt_world_def wf_shirts dest: stock_shirts_cases)

lemma shirt_world_quiet: "quiet (w_queue (shirt_world n))" "q_used (w_queue (shirt_world n)) = 0"
  "q_limit (w_queue (shirt_world n)) = n" "w_inv (shirt_world n) = shirts"
  by (simp_all add: quiet_def shirt_world_def q_used_def)

text \<open>C7: A lone customer who confirms the checkout of a cart gets an answer, and pays exactly
  when every item has what all lines of the cart together ask of it; then the cart is emptied
  and the stock of every item falls by what the cart asked of it. Otherwise the checkout fails
  and the cart is kept.\<close>

theorem checkout_sells_the_cart:
  assumes "wf_cart f (cu_cart c)" and "ct_item_count (cu_cart c) \<noteq> 0" and "shop_ok w"
    and "quiet (w_queue w)" and "q_used (w_queue w) + 712 \<le> q_limit (w_queue w)"
    and "discard_line (cu_stdin c) = Some (CHR ''y'' # rest)"
  shows "\<exists>c' outs w'. checkout f (shop_iteration f) c w = Inr (c', outs, w') \<and>
    (let ls = map line_order (cart_lines (cu_cart c)); st = stock (w_inv w) in
     if in_stock st ls then
       cu_cart c' = zero_cart f \<and> last outs = Checkout_Successful (ct_total_price (cu_cart c)) \<and>
       stock (w_inv w') = (\<lambda>k. map_option (\<lambda>n. n - demand ls k) (st k))
     else cu_cart c' = cu_cart c \<and> last outs = Checkout_Failed)"
proof -
  obtain b outs w' where r: "checkout f (shop_iteration f) c w =
      Inr (c\<lparr>cu_cart := (if b then zero_cart f else cu_cart c), cu_stdin := rest\<rparr>,
           outs @ [if b then Checkout_Successful (ct_total_price (cu_cart c)) else Checkout_Failed], w')"
    and s: "(b, stock (w_inv w')) =
      checkout_spec (stock (w_inv w)) (map line_order (cart_lines (cu_cart c)))"
    by (rule checkout_run [OF assms])
  note fits = checkout_spec_fits [OF shop_ok_sane [OF assms(3)] cart_lines_positive [OF assms(1)]]
    and success = checkout_spec_success [OF shop_ok_sane [OF assms(3)] cart_lines_positive [OF assms(1)]]
  show ?thesis
  proof (cases "in_stock (stock (w_inv w)) (map line_order (cart_lines (cu_cart c)))")
    case True
    with r s fits show ?thesis by (simp add: Let_def)
  next
    case False
    with s success have "\<not> b" by (metis (full_types))
    with r False show ?thesis by (simp add: Let_def)
  qed
qed

theorem checkout_sells_the_cart_witness:
  "\<exists>c' outs w'. checkout cents (shop_iteration cents) (shirt_shopper [8, 30]) (shirt_world 1000) =
     Inr (c', outs, w') \<and> cu_cart c' = zero_cart cents \<and> stock (w_inv w') ''Tshirt'' = Some 12"
proof -
  have c: "wf_cart cents (cu_cart (shirt_shopper [8, 30]))"
    "ct_item_count (cu_cart (shirt_shopper [8, 30])) \<noteq> 0"
    "map line_order (cart_lines (cu_cart (shirt_shopper [8, 30]))) = [(''Tshirt'', 8), (''Tshirt'', 30)]"
    "discard_line (cu_stdin (shirt_shopper [8, 30])) = Some (CHR ''y'' # [])"
    by code_simp+
  have "q_used (w_queue (shirt_world 1000)) + 712 \<le> q_limit (w_queue (shirt_world 1000))"
    by (simp add: shirt_world_quiet)
  from checkout_sells_the_cart [OF c(1,2) shop_ok_shirt_world shirt_world_quiet(1) this c(4)]
  show ?thesis
    by (auto simp: Let_def c(3) in_stock_iff shirt_world_quiet stock_shirts)
qed

text \<open>C39: A checkout that fails at a line has already sold the lines before it: their quantities
  are gone from the stock, while the whole cart is kept for another try.\<close>

theorem failed_checkout_keeps_sales:
  assumes "wf_cart f (cu_cart c)" and "ct_item_count (cu_cart c) \<noteq> 0" and "shop_ok w"
    and "quiet (w_queue w)" and "q_used (w_queue w) + 712 \<le> q_limit (w_queue w)"
    and "discard_line (cu_stdin c) = Some (CHR ''y'' # rest)"
    and "map line_order (cart_lines (cu_cart c)) = sold @ (name, n) # left"
    and "in_stock (stock (w_inv w)) sold"
    and "\<not> in_stock (stock (w_inv w)) (sold @ [(name, n)])"
  shows "\<exists>c' outs w'. checkout f (shop_iteration f) c w = Inr (c', outs, w') \<and>
    cu_cart c' = cu_cart c \<and> last outs = Checkout_Failed \<and>
    stock (w_inv w') = (\<lambda>k. map_option (\<lambda>h. h - demand sold k) (stock (w_inv w) k))"
proof -
  let ?st = "stock (w_inv w)"
  obtain b outs w' where r: "checkout f (shop_iteration f) c w =
      Inr (c\<lparr>cu_cart := (if b then zero_cart f else cu_cart c), cu_stdin := rest\<rparr>,
           outs @ [if b then Checkout_Successful (ct_total_price (cu_cart c)) else Checkout_Failed], w')"
    and s: "(b, stock (w_inv w')) = checkout_spec ?st (sold @ (name, n) # left)"
    using checkout_run [OF assms(1-6)] assms(7) by metis
  have pos: "\<forall>l \<in> set (sold @ [(name, n)]). 0 < snd l"
    using cart_lines_positive [OF assms(1)] assms(7) by simp
  have sane: "sane_stock ?st" by (rule shop_ok_sane [OF assms(3)])
  define st1 where "st1 = (\<lambda>k. map_option (\<lambda>h. h - demand sold k) (?st k))"
  have c1: "checkout_spec ?st sold = (True, st1)"
    unfolding st1_def using pos by (intro checkout_spec_fits [OF sane _ assms(8)]) simp
  obtain b2 st2 where o: "order_spec st1 name n = (b2, st2)" by fastforce
  have nb: "\<not> b2"
  proof
    assume b2
    with o have "checkout_spec ?st (sold @ [(name, n)]) = (True, st2)"
      by (simp add: checkout_spec_append c1)
    with checkout_spec_success [OF sane pos] assms(9) show False by blast
  qed
  with o have "st2 = st1" by (auto simp: order_spec_def split: option.splits if_splits)
  with s o nb have "\<not> b \<and> stock (w_inv w') = st1" by (simp add: checkout_spec_append c1)
  with r show ?thesis by (simp add: st1_def)
qed

theorem failed_checkout_keeps_sales_witness:
  "\<exists>c' outs w'. checkout cents (shop_iteration cents) (shirt_shopper [8, 45]) (shirt_world 1000) =
     Inr (c', outs, w') \<and> cu_cart c' = shirt_cart [8, 45] \<and> last outs = Checkout_Failed \<and>
     stock (w_inv w') ''Tshirt'' = Some 42"
proof -
  have c: "wf_cart cents (cu_cart (shirt_shopper [8, 45]))"
    "ct_item_count (cu_cart (shirt_shopper [8, 45])) \<noteq> 0"
    "map line_order (cart_lines (cu_cart (shirt_shopper [8, 45]))) = [(''Tshirt'', 8)] @ (''Tshirt'', 45) # []"
    "discard_line (cu_stdin (shirt_shopper [8, 45])) = Some (CHR ''y'' # [])"
    by code_simp+
  have w: "q_used (w_queue (shirt_world 1000)) + 712 \<le> q_limit (w_queue (shirt_world 1000))"
    "in_stock (stock (w_inv (shirt_world 1000))) [(''Tshirt'', 8)]"
    "\<not> in_stock (stock (w_inv (shirt_world 1000))) ([(''Tshirt'', 8)] @ [(''Tshirt'', 45)])"
    by (simp_all add: shirt_world_quiet in_stock_iff stock_shirts)
  from failed_checkout_keeps_sales [OF c(1,2) shop_ok_shirt_world shirt_world_quiet(1) w(1) c(4,3) w(2,3)]
  show ?thesis
    by (auto simp: shirt_world_quiet stock_shirts shirt_shopper_def)
qed

text \<open>At the end of its input the customer process never comes back from clearing the input
  buffer: the loop over \<^verbatim>\<open>getchar\<close> waits for a newline that cannot come.\<close>

theorem customer_hangs_at_eof:
  assumes "scan_d (cu_stdin c) = (None, r)" and "CHR ''\<newline>'' \<notin> set r"
  shows "customer_iteration f serve c w = Inl Diverges"
proof -
  have "discard_line r = None"
    using assms(2) discard_line_newline by (cases "discard_line r") auto
  with assms(1) show ?thesis by (simp add: customer_iteration_def)
qed

theorem customer_hangs_at_eof_witness:
  "customer_iteration cents (shop_iteration cents) (shopper []) (shirt_world 1000) = Inl Diverges"
proof -
  have "scan_d (cu_stdin (shopper [])) = (None, [])"
    by (simp add: shopper_def scan_d_def skip_ws_def)
  then show ?thesis by (rule customer_hangs_at_eof) simp
qed

end
