(* ===== verification/Inventory_Manager.thy ===== *)
theory Inventory_Manager
  imports Shop_Process
begin

text \<open>
  \<^verbatim>\<open>IPC/inventory_manager.c\<close>: the manager's menu, which restocks and reprices items
  under the shared semaphore, and the thread that prints notifications. A call of
  \<^verbatim>\<open>semop\<close> can succeed, be interrupted by a signal (which may be one whose handler
  clears \<^verbatim>\<open>running\<close>) or fail: the outcomes of the calls to come are a script in the
  state of the manager. The other place where the manager waits is its input: \<open>mg_sigint\<close> says
  whether such a signal, and not the end of the file, comes when the input typed is used up. A
  signal at another time is seen at the next of these places.
\<close>

section \<open>The manager's state\<close>

datatype sem_ev = Sem_Done | Sem_Intr bool | Sem_Fail

record manager =
  mg_running :: bool
  mg_stdin :: string
  mg_sigint :: bool
  mg_semops :: "sem_ev list"

text \<open>
  After a \<^verbatim>\<open>scanf\<close> that left \<open>r\<close> unread. It has read up to the end of the input when
  nothing is left; there the signal makes the read fail with EINTR, which \<^verbatim>\<open>scanf\<close> takes for
  the end of the input.
\<close>

definition mgr_read :: "string \<Rightarrow> manager \<Rightarrow> manager" where
  "mgr_read r m = m\<lparr>mg_stdin := r, mg_running := mg_running m \<and> \<not> (mg_sigint m \<and> r = [])\<rparr>"

lemma mgr_read_semops [simp]: "mg_semops (mgr_read r m) = mg_semops m"
  by (simp add: mgr_read_def)

datatype 'd mgr_out =
    Inventory "(string \<times> int \<times> 'd \<times> int) list"
  | Mgr_Invalid_Input | Mgr_Invalid_Quantity | Mgr_Invalid_Price | Mgr_Invalid_Choice
  | Restocked int string | Repriced string 'd | Mgr_Item_Not_Found
  | Alert_Low_Stock string int int | Alert_Out_Of_Stock string int int | Mgr_Menu

section \<open>Semaphore operations\<close>

text \<open>
  The loop of \<^verbatim>\<open>sem_lock\<close> (\<open>d = -1\<close>) and \<^verbatim>\<open>sem_unlock\<close> (\<open>d = 1\<close>): it repeats an
  interrupted call while \<^verbatim>\<open>running\<close> is set, and on any other failure prints a message
  and returns as if it had succeeded. A call that would make the value negative waits.
\<close>

fun sem_op :: "int \<Rightarrow> sem_ev list \<Rightarrow> bool \<Rightarrow> 'd world \<Rightarrow> (bool \<times> sem_ev list \<times> 'd world) c_res" where
  "sem_op d [] running w = Inl Blocked"
| "sem_op d (Sem_Done # es) running w =
     (if w_sem w + d < 0 then Inl Blocked
      else Inr (running, es, w\<lparr>w_sem := w_sem w + d\<rparr>))"
| "sem_op d (Sem_Intr term # es) running w =
     (let running' = (running \<and> \<not> term) in
      if running' then sem_op d es running' w else Inr (running', es, w))"
| "sem_op d (Sem_Fail # es) running w = Inr (running, es, w)"

definition mgr_sem_lock :: "manager \<times> 'd world \<Rightarrow> (manager \<times> 'd world) c_res" where
  "mgr_sem_lock s =
     (case s of (m, w) \<Rightarrow>
      c_bind (sem_op (-1) (mg_semops m) (mg_running m) w) (\<lambda>(run, es, w').
        Inr (m\<lparr>mg_running := run, mg_semops := es\<rparr>, w')))"

definition mgr_sem_unlock :: "manager \<times> 'd world \<Rightarrow> (manager \<times> 'd world) c_res" where
  "mgr_sem_unlock s =
     (case s of (m, w) \<Rightarrow>
      c_bind (sem_op 1 (mg_semops m) (mg_running m) w) (\<lambda>(run, es, w').
        Inr (m\<lparr>mg_running := run, mg_semops := es\<rparr>, w')))"

section \<open>Menu operations\<close>

definition mgr_display_inventory ::
    "manager \<times> 'd world \<Rightarrow> ((manager \<times> 'd world) \<times> 'd mgr_out list) c_res" where
  "mgr_display_inventory s =
     c_bind (mgr_sem_lock s) (\<lambda>s1.
       let iv = w_inv (snd s1) in
       if int (length (inv_items iv)) < inv_item_count iv then Inl Out_Of_Bounds
       else c_bind (mgr_sem_unlock s1) (\<lambda>s2.
         Inr (s2, [Inventory (map (\<lambda>it. (cstr (it_name it), it_quantity it, it_price it,
                                          it_low_threshold it))
                    (take (nat (inv_item_count iv)) (inv_items iv)))])))"

text \<open>
  The loop both updates share: under the semaphore the first item of the name is changed by
  \<open>upd\<close>; the flag is \<^verbatim>\<open>found\<close>.
\<close>

definition update_item :: "('d inventory_item \<Rightarrow> 'd inventory_item) \<Rightarrow> string \<Rightarrow>
    manager \<times> 'd world \<Rightarrow> (bool \<times> manager \<times> 'd world) c_res" where
  "update_item upd name s =
     c_bind (mgr_sem_lock s) (\<lambda>(m1, w1).
     c_bind (find_item (w_inv w1) name) (\<lambda>found.
       let w2 = (case found of
                   Some i \<Rightarrow> w1\<lparr>w_inv := put_item (w_inv w1) i (upd (get_item (w_inv w1) i))\<rparr>
                 | None \<Rightarrow> w1)
       in c_bind (mgr_sem_unlock (m1, w2)) (\<lambda>s3. Inr (found \<noteq> None, s3))))"

definition add_quantity :: "int \<Rightarrow> 'd inventory_item \<Rightarrow> 'd inventory_item" where
  "add_quantity n it = set_quantity (wrap32 (it_quantity it + n)) it"

definition restock_item :: "manager \<times> 'd world \<Rightarrow> ((manager \<times> 'd world) \<times> 'd mgr_out list) c_res" where
  "restock_item s =
     c_bind (mgr_display_inventory s) (\<lambda>((m1, w1), shown).
     (case scan_s 49 (mg_stdin m1) of
        (None, r) \<Rightarrow> Inr ((mgr_read r m1, w1), shown @ [Mgr_Invalid_Input])
      | (Some item_name, r) \<Rightarrow>
     (let m2 = mgr_read r m1 in case scan_d r of
        (None, r2) \<Rightarrow> Inr ((mgr_read r2 m2, w1), shown @ [Mgr_Invalid_Quantity])
      | (Some quantity, r2) \<Rightarrow>
        if quantity \<le> 0 then Inr ((mgr_read r2 m2, w1), shown @ [Mgr_Invalid_Quantity])
        else c_bind (update_item (add_quantity quantity) (cstr item_name) (mgr_read r2 m2, w1))
          (\<lambda>(found, s2). Inr (s2, shown @ [if found then Restocked quantity item_name
                                           else Mgr_Item_Not_Found])))))"

definition update_price :: "'d fp \<Rightarrow> manager \<times> 'd world \<Rightarrow>
    ((manager \<times> 'd world) \<times> 'd mgr_out list) c_res" where
  "update_price f s =
     c_bind (mgr_display_inventory s) (\<lambda>((m1, w1), shown).
     (case scan_s 49 (mg_stdin m1) of
        (None, r) \<Rightarrow> Inr ((mgr_read r m1, w1), shown @ [Mgr_Invalid_Input])
      | (Some item_name, r) \<Rightarrow>
     (let m2 = mgr_read r m1 in case fp_scan f r of
        (None, r2) \<Rightarrow> Inr ((mgr_read r2 m2, w1), shown @ [Mgr_Invalid_Price])
      | (Some new_price, r2) \<Rightarrow>
        if fp_le f new_price (fp_zero f) then
          Inr ((mgr_read r2 m2, w1), shown @ [Mgr_Invalid_Price])
        else c_bind (update_item (\<lambda>it. it\<lparr>it_price := new_price\<rparr>) (cstr item_name)
                       (mgr_read r2 m2, w1))
          (\<lambda>(found, s2). Inr (s2, shown @ [if found then Repriced item_name new_price
                                           else Mgr_Item_Not_Found])))))"

section \<open>Notifications\<close>

definition process_notification :: "notify_msg \<Rightarrow> 'd mgr_out list" where
  "process_notification msg =
     (if nm_mtype msg = MSG_NOTIFY_LOW_STOCK then
        [Alert_Low_Stock (cstr (nm_item_name msg)) (nm_current_quantity msg) (nm_threshold msg)]
      else if nm_mtype msg = MSG_NOTIFY_OUT_OF_STOCK then
        [Alert_Out_Of_Stock (cstr (nm_item_name msg)) (nm_current_quantity msg) (nm_threshold msg)]
      else []) @ [Mgr_Menu]"

text \<open>
  One turn of the thread's loop. An order message never has these types; were one received,
  the model stops.
\<close>

definition notification_poll :: "'d msgq \<Rightarrow> ('d msgq \<times> 'd mgr_out list) c_res" where
  "notification_poll q =
     (case msgrcv MSG_NOTIFY_LOW_STOCK q of
        IPC_Ok (Notify_Msg msg, q') \<Rightarrow> Inr (q', process_notification msg)
      | IPC_Ok (Order_Msg _, _) \<Rightarrow> Inl Out_Of_Bounds
      | _ \<Rightarrow>
     (case msgrcv MSG_NOTIFY_OUT_OF_STOCK q of
        IPC_Ok (Notify_Msg msg, q') \<Rightarrow> Inr (q', process_notification msg)
      | IPC_Ok (Order_Msg _, _) \<Rightarrow> Inl Out_Of_Bounds
      | _ \<Rightarrow> Inr (q, [])))"

fun notification_handler :: "nat \<Rightarrow> 'd msgq \<Rightarrow> ('d msgq \<times> 'd mgr_out list) c_res" where
  "notification_handler 0 q = Inr (q, [])"
| "notification_handler (Suc n) q =
     c_bind (notification_poll q) (\<lambda>(q1, o1).
     c_bind (notification_handler n q1) (\<lambda>(q2, o2). Inr (q2, o1 @ o2)))"

section \<open>The menu loop\<close>

text \<open>
  \<^verbatim>\<open>while (getchar() != '\n' && running);\<close> ends at the newline, or with the signal when
  the input is used up.
\<close>

definition manager_iteration :: "'d fp \<Rightarrow> manager \<times> 'd world \<Rightarrow>
    ((manager \<times> 'd world) \<times> 'd mgr_out list) c_res" where
  "manager_iteration f s =
     (case s of (m, w) \<Rightarrow>
      (case scan_d (mg_stdin m) of
         (None, r) \<Rightarrow>
           let m1 = mgr_read r m in
           if \<not> mg_running m1 then Inr ((m1, w), [Mgr_Menu])
           else (case discard_line r of
                   Some r2 \<Rightarrow> Inr ((m1\<lparr>mg_stdin := r2\<rparr>, w), [Mgr_Menu, Mgr_Invalid_Input])
                 | None \<Rightarrow>
                     if mg_sigint m then Inr ((mgr_read [] m1, w), [Mgr_Menu, Mgr_Invalid_Input])
                     else Inl Diverges)
       | (Some choice, r) \<Rightarrow>
           let m1 = mgr_read r m;
               menu = (\<lambda>(s2, outs). Inr (s2, Mgr_Menu # outs))
           in
           if \<not> mg_running m1 then Inr ((m1, w), [Mgr_Menu])
           else if choice = 1 then c_bind (mgr_display_inventory (m1, w)) menu
           else if choice = 2 then c_bind (restock_item (m1, w)) menu
           else if choice = 3 then c_bind (update_price f (m1, w)) menu
           else if choice = 4 then Inr ((m1\<lparr>mg_running := False\<rparr>, w), [Mgr_Menu])
           else Inr ((m1, w), [Mgr_Menu, Mgr_Invalid_Choice])))"

text \<open>
  The loop of \<^verbatim>\<open>main\<close> with the notification thread beside it: before each turn of the menu
  the thread makes as many turns of its own as \<open>polls\<close> says. A turn it makes while the menu waits
  in \<^verbatim>\<open>scanf\<close> or \<^verbatim>\<open>semop\<close> is counted before or after the menu's turn: the menu neither sends nor
  receives a message, and the thread touches nothing but the queue. Only the place of its alerts
  among the menu's lines is then not the one on the screen.
\<close>

fun manager_loop :: "'d fp \<Rightarrow> nat list \<Rightarrow> manager \<times> 'd world \<Rightarrow>
    ((manager \<times> 'd world) \<times> 'd mgr_out list) c_res" where
  "manager_loop f [] s = Inr (s, [])"
| "manager_loop f (p # polls) s =
     (if mg_running (fst s) then
        c_bind (notification_handler p (w_queue (snd s))) (\<lambda>(q, o1).
        c_bind (manager_iteration f (fst s, (snd s)\<lparr>w_queue := q\<rparr>)) (\<lambda>(s1, o2).
        c_bind (manager_loop f polls s1) (\<lambda>(s2, o3). Inr (s2, o1 @ o2 @ o3))))
      else Inr (s, []))"

definition mgr_init_shared_memory :: "(string \<Rightarrow> char \<Rightarrow> int) \<Rightarrow> 'd ipc \<Rightarrow> 'd shared_inventory c_res" where
  "mgr_init_shared_memory ftok k = ipc_find (get_key ftok (CHR ''A'')) (ipc_shm k)"

definition mgr_init_semaphore :: "(string \<Rightarrow> char \<Rightarrow> int) \<Rightarrow> 'd ipc \<Rightarrow> int c_res" where
  "mgr_init_semaphore ftok k = ipc_find (get_key ftok (CHR ''B'')) (ipc_sem k)"

definition mgr_init_message_queue :: "(string \<Rightarrow> char \<Rightarrow> int) \<Rightarrow> 'd ipc \<Rightarrow> 'd msgq c_res" where
  "mgr_init_message_queue ftok k = ipc_find (get_key ftok (CHR ''C'')) (ipc_msg k)"

text \<open>
  The program. \<open>thread_ok\<close> is the success of \<^verbatim>\<open>pthread_create\<close>; when it fails the
  menu is never shown.
\<close>

definition manager_main :: "'d fp \<Rightarrow> (string \<Rightarrow> char \<Rightarrow> int) \<Rightarrow> bool \<Rightarrow> nat list \<Rightarrow> manager \<Rightarrow> 'd ipc \<Rightarrow>
    ((manager \<times> 'd world) \<times> 'd mgr_out list) c_res" where
  "manager_main f ftok thread_ok polls m k =
     c_bind (mgr_init_shared_memory ftok k) (\<lambda>inventory.
     c_bind (mgr_init_semaphore ftok k) (\<lambda>sem.
     c_bind (mgr_init_message_queue ftok k) (\<lambda>queue.
       let w = \<lparr>w_inv = inventory, w_queue = queue, w_sem = sem\<rparr> in
       if thread_ok then manager_loop f polls (m, w)
       else Inr ((m\<lparr>mg_running := False\<rparr>, w), []))))"

section \<open>Restocking and repricing\<close>

text \<open>A call whose first try succeeds.\<close>

lemma sem_lock_done:
  "mg_semops m = Sem_Done # es \<Longrightarrow> 0 < w_sem w \<Longrightarrow>
   mgr_sem_lock (m, w) = Inr (m\<lparr>mg_semops := es\<rparr>, w\<lparr>w_sem := w_sem w - 1\<rparr>)"
  by (simp add: mgr_sem_lock_def)

lemma sem_unlock_done:
  "mg_semops m = Sem_Done # es \<Longrightarrow> 0 \<le> w_sem w \<Longrightarrow>
   mgr_sem_unlock (m, w) = Inr (m\<lparr>mg_semops := es\<rparr>, w\<lparr>w_sem := w_sem w + 1\<rparr>)"
  by (simp add: mgr_sem_unlock_def)

text \<open>An interrupted call after which \<^verbatim>\<open>running\<close> is clear returns without the lock.\<close>

lemma sem_lock_interrupted:
  "mg_semops m = Sem_Intr True # es \<Longrightarrow>
   mgr_sem_lock (m, w) = Inr (m\<lparr>mg_running := False, mg_semops := es\<rparr>, w)"
  by (simp add: mgr_sem_lock_def)

definition updated :: "('d inventory_item \<Rightarrow> 'd inventory_item) \<Rightarrow> string \<Rightarrow> 'd shared_inventory \<Rightarrow>
    'd shared_inventory" where
  "updated upd name iv =
     (case find_item iv name of
        Inr (Some i) \<Rightarrow> put_item iv i (upd (get_item iv i))
      | _ \<Rightarrow> iv)"

lemma updated_map:
  assumes "wf_inventory iv"
    and "\<And>it. item_ok it \<Longrightarrow> item_ok (upd it) \<and> item_key (upd it) = item_key it"
  shows "inv_map (updated upd name iv) =
      (case inv_map iv name of None \<Rightarrow> inv_map iv | Some it \<Rightarrow> (inv_map iv)(name \<mapsto> upd it))"
    and "wf_inventory (updated upd name iv)"
  using assms
  by (rule_tac store.find_cases [of iv name];
      auto simp: updated_def store.put_abs intro: store.put_wf)+

lemma update_item_run:
  assumes "wf_inventory (w_inv w1)" and "mgr_sem_lock (m, w) = Inr (m1, w1)"
    and "mg_semops m1 = Sem_Done # es" and "0 \<le> w_sem w1"
  shows "update_item upd name (m, w) =
    Inr (inv_map (w_inv w1) name \<noteq> None, m1\<lparr>mg_semops := es\<rparr>,
         w1\<lparr>w_inv := updated upd name (w_inv w1), w_sem := w_sem w1 + 1\<rparr>)"
  using assms(1)
proof (cases rule: store.find_cases [of _ name])
  case 1
  with assms show ?thesis by (simp add: update_item_def updated_def sem_unlock_done)
next
  case (2 i)
  with assms show ?thesis by (simp add: update_item_def updated_def sem_unlock_done Let_def)
qed

lemma display_done:
  assumes "wf_inventory (w_inv w)" and "0 < w_sem w" and "mg_semops m = Sem_Done # Sem_Done # es"
  shows "\<exists>shown. mgr_display_inventory (m, w) = Inr ((m\<lparr>mg_semops := es\<rparr>, w), shown)"
  using assms by (auto simp: mgr_display_inventory_def sem_lock_done sem_unlock_done wf_inventory_def Let_def)

lemma add_quantity_ok:
  "item_ok it \<Longrightarrow> item_ok (add_quantity n it) \<and> item_key (add_quantity n it) = item_key it"
  by (simp add: add_quantity_def store.ok_set_qty store.key_set_qty)

lemma stock_updated_add:
  assumes "wf_inventory iv"
  shows "stock (updated (add_quantity n) name iv) =
   (case stock iv name of None \<Rightarrow> stock iv | Some h \<Rightarrow> (stock iv)(name \<mapsto> wrap32 (h + n)))"
  using updated_map(1) [OF assms, of "add_quantity n" name, OF add_quantity_ok]
  by (auto simp: stock_def fun_eq_iff add_quantity_def store.qty_set_qty split: option.splits)

text \<open>A restock with the semaphore working: the display and the update each take and free it.\<close>

lemma restock_run:
  assumes "wf_inventory (w_inv w)" and "0 < w_sem w"
    and "mg_semops m = Sem_Done # Sem_Done # Sem_Done # Sem_Done # es"
    and "scan_s 49 (mg_stdin m) = (Some name, r)" and "scan_d r = (Some n, r2)" and "0 < n"
  obtains m' shown where "restock_item (m, w) =
    Inr ((m', w\<lparr>w_inv := updated (add_quantity n) (cstr name) (w_inv w)\<rparr>),
         shown @ [if inv_map (w_inv w) (cstr name) \<noteq> None then Restocked n name else Mgr_Item_Not_Found])"
proof -
  obtain shown where d: "mgr_display_inventory (m, w) =
      Inr ((m\<lparr>mg_semops := Sem_Done # Sem_Done # es\<rparr>, w), shown)"
    using display_done [OF assms(1-3)] by auto
  let ?m1 = "mgr_read r2 (mgr_read r (m\<lparr>mg_semops := Sem_Done # Sem_Done # es\<rparr>))"
  have l: "mgr_sem_lock (?m1, w) = Inr (?m1\<lparr>mg_semops := Sem_Done # es\<rparr>, w\<lparr>w_sem := w_sem w - 1\<rparr>)"
    using assms(2) by (simp add: sem_lock_done)
  have "update_item (add_quantity n) (cstr name) (?m1, w) =
      Inr (inv_map (w_inv w) (cstr name) \<noteq> None, ?m1\<lparr>mg_semops := es\<rparr>,
           w\<lparr>w_inv := updated (add_quantity n) (cstr name) (w_inv w)\<rparr>)"
    using assms(1,2) by (subst update_item_run [OF _ l]) auto
  with d assms(4-6) show thesis by (intro that [of _ shown]) (auto simp: restock_item_def)
qed

text \<open>C30: With the semaphore working, restocking adds the quantity typed (as 32-bit integers add)
  to the stock of the first item of that name and to nothing else, reports whether there is
  one, and leaves the semaphore as it was.\<close>

theorem restock_item_adds:
  assumes "wf_inventory (w_inv w)" and "0 < w_sem w"
    and "mg_semops m = Sem_Done # Sem_Done # Sem_Done # Sem_Done # es"
    and "scan_s 49 (mg_stdin m) = (Some name, r)" and "scan_d r = (Some n, r2)" and "0 < n"
  shows "\<exists>m' w' outs. restock_item (m, w) = Inr ((m', w'), outs) \<and>
    wf_inventory (w_inv w') \<and> w_sem w' = w_sem w \<and>
    (case stock (w_inv w) (cstr name) of
       None \<Rightarrow> last outs = Mgr_Item_Not_Found \<and> stock (w_inv w') = stock (w_inv w)
     | Some h \<Rightarrow> last outs = Restocked n name \<and>
         stock (w_inv w') = (stock (w_inv w))(cstr name \<mapsto> wrap32 (h + n)))"
proof -
  obtain m' shown where "restock_item (m, w) =
    Inr ((m', w\<lparr>w_inv := updated (add_quantity n) (cstr name) (w_inv w)\<rparr>),
         shown @ [if inv_map (w_inv w) (cstr name) \<noteq> None then Restocked n name else Mgr_Item_Not_Found])"
    by (rule restock_run [OF assms])
  moreover have "wf_inventory (updated (add_quantity n) (cstr name) (w_inv w))"
    using updated_map(2) [OF assms(1), of "add_quantity n", OF add_quantity_ok] .
  ultimately show ?thesis
    using stock_updated_add [OF assms(1), of n "cstr name"]
    by (auto simp: stock_def split: option.splits)
qed

definition clerk :: "string \<Rightarrow> sem_ev list \<Rightarrow> manager" where
  "clerk input es = \<lparr>mg_running = True, mg_stdin = input, mg_sigint = False, mg_semops = es\<rparr>"

theorem restock_item_adds_witness:
  "\<exists>m' w' outs. restock_item (clerk ''Tshirt 25'' [Sem_Done, Sem_Done, Sem_Done, Sem_Done],
       shirt_world 1000) = Inr ((m', w'), outs) \<and>
     last outs = Restocked 25 ''Tshirt'' \<and> stock (w_inv w') ''Tshirt'' = Some 75 \<and> w_sem w' = 1"
proof -
  let ?m = "clerk ''Tshirt 25'' [Sem_Done, Sem_Done, Sem_Done, Sem_Done]"
  have m: "mg_semops ?m = Sem_Done # Sem_Done # Sem_Done # Sem_Done # []"
    "scan_s 49 (mg_stdin ?m) = (Some ''Tshirt'', '' 25'')" "scan_d '' 25'' = (Some 25, [])"
    "(0::int) < 25"
    by (simp add: clerk_def, code_simp, code_simp, simp)
  have w: "wf_inventory (w_inv (shirt_world 1000))" "0 < w_sem (shirt_world 1000)"
    by (simp_all add: shirt_world_def wf_shirts)
  have "cstr ''Tshirt'' = ''Tshirt''" "stock (w_inv (shirt_world 1000)) ''Tshirt'' = Some 50"
    by (simp_all add: shirt_world_def stock_shirts)
  then show ?thesis
    using restock_item_adds [OF w m] by (auto simp: wrap32_def shirt_world_def)
qed

text \<open>When the signal that ends the manager arrives while it waits for the semaphore another
  process holds, it goes on without the lock: it changes the stock inside the other process's
  critical section, and its \<^verbatim>\<open>sem_unlock\<close> frees the semaphore it never took.\<close>

theorem interrupted_update_enters:
  assumes "wf_inventory (w_inv w)" and "w_sem w = 0"
    and "mg_semops m = Sem_Intr True # Sem_Done # es"
    and "stock (w_inv w) name = Some h"
  shows "\<exists>m' w'. update_item (add_quantity n) name (m, w) = Inr (True, m', w') \<and>
    \<not> mg_running m' \<and> stock (w_inv w') name = Some (wrap32 (h + n)) \<and> w_sem w' = 1"
proof -
  note l = sem_lock_interrupted [OF assms(3), of w]
  have "mg_semops (m\<lparr>mg_running := False, mg_semops := Sem_Done # es\<rparr>) = Sem_Done # es" by simp
  moreover have "inv_map (w_inv w) name \<noteq> None" using assms(4) by (auto simp: stock_def)
  moreover have "stock (updated (add_quantity n) name (w_inv w)) name = Some (wrap32 (h + n))"
    using assms(4) by (simp add: stock_updated_add [OF assms(1)])
  ultimately show ?thesis
    using update_item_run [OF assms(1) l, of "es" "add_quantity n" name] assms(2) by auto
qed

theorem interrupted_update_enters_witness:
  "\<exists>m' w'. update_item (add_quantity 5) ''Tshirt''
      (clerk [] [Sem_Intr True, Sem_Done], (shirt_world 1000)\<lparr>w_sem := 0\<rparr>) = Inr (True, m', w') \<and>
    stock (w_inv w') ''Tshirt'' = Some 55 \<and> w_sem w' = 1"
proof -
  let ?w = "(shirt_world 1000)\<lparr>w_sem := 0\<rparr>"
  have "wf_inventory (w_inv ?w)" "w_sem ?w = 0" "stock (w_inv ?w) ''Tshirt'' = Some 50"
    by (simp_all add: shirt_world_def wf_shirts stock_shirts)
  moreover have "mg_semops (clerk [] [Sem_Intr True, Sem_Done]) = Sem_Intr True # Sem_Done # []"
    by (simp add: clerk_def)
  ultimately show ?thesis
    using interrupted_update_enters [of ?w "clerk [] [Sem_Intr True, Sem_Done]" "[]" "''Tshirt''" 50 5]
    by (auto simp: wrap32_def)
qed

section \<open>Repricing leaves the stock alone\<close>

lemma set_price_ok: "item_ok it \<Longrightarrow> item_ok (it\<lparr>it_price := p\<rparr>) \<and> item_key (it\<lparr>it_price := p\<rparr>) = item_key it"
  by (simp add: item_ok_def item_key_def)

lemma price_run:
  assumes "wf_inventory (w_inv w)" and "0 < w_sem w"
    and "mg_semops m = Sem_Done # Sem_Done # Sem_Done # Sem_Done # es"
    and "scan_s 49 (mg_stdin m) = (Some name, r)" and "fp_scan f r = (Some p, r2)"
    and "\<not> fp_le f p (fp_zero f)"
  obtains m' outs where "update_price f (m, w) =
    Inr ((m', w\<lparr>w_inv := updated (it_price_update (\<lambda>_. p)) (cstr name) (w_inv w)\<rparr>), outs)"
proof -
  obtain shown where d: "mgr_display_inventory (m, w) =
      Inr ((m\<lparr>mg_semops := Sem_Done # Sem_Done # es\<rparr>, w), shown)"
    using display_done [OF assms(1-3)] by auto
  let ?m1 = "mgr_read r2 (mgr_read r (m\<lparr>mg_semops := Sem_Done # Sem_Done # es\<rparr>))"
  have l: "mgr_sem_lock (?m1, w) = Inr (?m1\<lparr>mg_semops := Sem_Done # es\<rparr>, w\<lparr>w_sem := w_sem w - 1\<rparr>)"
    using assms(2) by (simp add: sem_lock_done)
  have u: "update_item (it_price_update (\<lambda>_. p)) (cstr name) (?m1, w) =
      Inr (inv_map (w_inv w) (cstr name) \<noteq> None, ?m1\<lparr>mg_semops := es\<rparr>,
           w\<lparr>w_inv := updated (it_price_update (\<lambda>_. p)) (cstr name) (w_inv w)\<rparr>)"
    using assms(1,2) by (subst update_item_run [OF _ l]) auto
  show thesis using d u assms(4-6) that by (auto simp: update_price_def)
qed

lemma updated_price:
  assumes "wf_inventory iv"
  shows "wf_inventory (updated (it_price_update (\<lambda>_. p)) name iv)"
    and "stock (updated (it_price_update (\<lambda>_. p)) name iv) = stock iv"
    and "(\<lambda>k. map_option it_price (inv_map (updated (it_price_update (\<lambda>_. p)) name iv) k)) =
      (\<lambda>k. map_option (\<lambda>it. if k = name then p else it_price it) (inv_map iv k))"
  using updated_map [OF assms, of "it_price_update (\<lambda>_. p)" name, OF set_price_ok]
  by (auto simp: stock_def fun_eq_iff split: option.splits intro!: option.map_cong)

text \<open>With the semaphore working, a price that is not \<^verbatim>\<open><= 0\<close> (a NaN included) becomes
  the price of the named item, and no quantity and no other item changes.\<close>

theorem update_price_sets:
  assumes "wf_inventory (w_inv w)" and "0 < w_sem w"
    and "mg_semops m = Sem_Done # Sem_Done # Sem_Done # Sem_Done # es"
    and "scan_s 49 (mg_stdin m) = (Some name, r)" and "fp_scan f r = (Some p, r2)"
    and "\<not> fp_le f p (fp_zero f)"
  shows "\<exists>m' w' outs. update_price f (m, w) = Inr ((m', w'), outs) \<and>
    wf_inventory (w_inv w') \<and> w_sem w' = w_sem w \<and> stock (w_inv w') = stock (w_inv w) \<and>
    (\<lambda>k. map_option it_price (inv_map (w_inv w') k)) =
      (\<lambda>k. map_option (\<lambda>it. if k = cstr name then p else it_price it) (inv_map (w_inv w) k))"
proof -
  obtain m' outs where "update_price f (m, w) =
    Inr ((m', w\<lparr>w_inv := updated (it_price_update (\<lambda>_. p)) (cstr name) (w_inv w)\<rparr>), outs)"
    by (rule price_run [OF assms])
  then show ?thesis using updated_price [OF assms(1)] by auto
qed

theorem update_price_sets_witness:
  "\<exists>m' w' outs. update_price cents (clerk ''Tshirt 24.50'' [Sem_Done, Sem_Done, Sem_Done, Sem_Done],
       shirt_world 1000) = Inr ((m', w'), outs) \<and>
     stock (w_inv w') ''Tshirt'' = Some 50 \<and> map_option it_price (inv_map (w_inv w') ''Tshirt'') = Some 2450"
proof -
  let ?m = "clerk ''Tshirt 24.50'' [Sem_Done, Sem_Done, Sem_Done, Sem_Done]"
  have m: "mg_semops ?m = Sem_Done # Sem_Done # Sem_Done # Sem_Done # []"
    "scan_s 49 (mg_stdin ?m) = (Some ''Tshirt'', '' 24.50'')"
    "fp_scan cents '' 24.50'' = (Some 2450, [])" "\<not> fp_le cents 2450 (fp_zero cents)"
    by (simp add: clerk_def, code_simp, code_simp, code_simp)
  have w: "wf_inventory (w_inv (shirt_world 1000))" "0 < w_sem (shirt_world 1000)"
    by (simp_all add: shirt_world_def wf_shirts)
  have "inv_map shirts ''Tshirt'' \<noteq> None" using stock_shirts by (auto simp: stock_def)
  with update_price_sets [OF w m] show ?thesis
    by (auto simp: shirt_world_def stock_shirts dest: fun_cong [of _ _ "''Tshirt''"])
qed

section \<open>A turn of the menu without signals\<close>

text \<open>
  What the input of a turn asks to be added: the quantity of a restock that is carried out, else 0.
  A turn makes at most four semaphore calls.
\<close>

definition restock_typed :: "string \<Rightarrow> int" where
  "restock_typed s =
     (case scan_d s of
        (Some choice, r) \<Rightarrow>
          if choice = 2 then
            (case scan_s 49 r of
               (Some _, r1) \<Rightarrow> (case scan_d r1 of (Some n, _) \<Rightarrow> max 0 n | (None, _) \<Rightarrow> 0)
             | (None, _) \<Rightarrow> 0)
          else 0
      | (None, _) \<Rightarrow> 0)"

lemma restock_typed_nonneg: "0 \<le> restock_typed s"
  by (simp add: restock_typed_def split: prod.splits option.splits)

definition calm :: "manager \<Rightarrow> bool" where
  "calm m \<longleftrightarrow> 4 \<le> length (mg_semops m) \<and> set (mg_semops m) \<subseteq> {Sem_Done}"

lemma calm_semops:
  assumes "calm m"
  obtains es where "mg_semops m = Sem_Done # Sem_Done # Sem_Done # Sem_Done # es"
proof -
  have "mg_semops m = replicate (length (mg_semops m)) Sem_Done"
    by (rule replicate_length_same [symmetric]) (use assms in \<open>auto simp: calm_def\<close>)
  then have "mg_semops m = replicate (4 + (length (mg_semops m) - 4)) Sem_Done"
    using assms by (simp add: calm_def)
  then show thesis by (intro that) (simp add: numeral_eq_Suc)
qed

text \<open>What such a turn does to the shared objects: the queue and the semaphore stay as they are.\<close>

definition turn_effect :: "int \<Rightarrow> 'd world \<Rightarrow> 'd world \<Rightarrow> bool" where
  "turn_effect n w w' \<longleftrightarrow> wf_inventory (w_inv w') \<and> w_queue w' = w_queue w \<and> w_sem w' = w_sem w \<and>
     (stock (w_inv w') = stock (w_inv w) \<or>
      (\<exists>name h. 0 < n \<and> stock (w_inv w) name = Some h \<and>
         stock (w_inv w') = (stock (w_inv w))(name \<mapsto> wrap32 (h + n))))"

lemma turn_effect_refl [simp]: "wf_inventory (w_inv w) \<Longrightarrow> turn_effect n w w"
  by (simp add: turn_effect_def)

lemma restock_turn:
  assumes "wf_inventory (w_inv w)" and "0 < w_sem w"
    and "mg_semops m = Sem_Done # Sem_Done # Sem_Done # Sem_Done # es"
  shows "\<exists>s' outs. restock_item (m, w) = Inr (s', outs) \<and>
    turn_effect (case scan_s 49 (mg_stdin m) of
        (Some _, r1) \<Rightarrow> (case scan_d r1 of (Some n, _) \<Rightarrow> max 0 n | (None, _) \<Rightarrow> 0)
      | (None, _) \<Rightarrow> 0) w (snd s')"
proof -
  obtain shown where d: "mgr_display_inventory (m, w) =
      Inr ((m\<lparr>mg_semops := Sem_Done # Sem_Done # es\<rparr>, w), shown)"
    using display_done [OF assms] by auto
  obtain a r where a: "scan_s 49 (mg_stdin m) = (a, r)" by fastforce
  obtain b r2 where b: "scan_d r = (b, r2)" by fastforce
  show ?thesis
  proof (cases "a = None \<or> b = None \<or> the b \<le> 0")
    case True
    with d a b assms(1) show ?thesis
      by (cases a; cases b) (auto simp: restock_item_def Let_def)
  next
    case False
    then obtain name n where n: "a = Some name" "b = Some n" "0 < n" by auto
    obtain m' shown where r: "restock_item (m, w) =
      Inr ((m', w\<lparr>w_inv := updated (add_quantity n) (cstr name) (w_inv w)\<rparr>),
           shown @ [if inv_map (w_inv w) (cstr name) \<noteq> None then Restocked n name else Mgr_Item_Not_Found])"
      by (rule restock_run [OF assms a [unfolded n] b [unfolded n] n(3)])
    have "wf_inventory (updated (add_quantity n) (cstr name) (w_inv w))"
      using updated_map(2) [OF assms(1), of "add_quantity n", OF add_quantity_ok] .
    then have "turn_effect n w (w\<lparr>w_inv := updated (add_quantity n) (cstr name) (w_inv w)\<rparr>)"
      using n(3) stock_updated_add [OF assms(1), of n "cstr name"]
      by (auto simp: turn_effect_def split: option.splits)
    with r a b n show ?thesis by (auto simp: max_def)
  qed
qed

lemma price_turn:
  assumes "wf_inventory (w_inv w)" and "0 < w_sem w"
    and "mg_semops m = Sem_Done # Sem_Done # Sem_Done # Sem_Done # es"
  shows "\<exists>s' outs. update_price f (m, w) = Inr (s', outs) \<and> turn_effect 0 w (snd s')"
proof -
  obtain shown where d: "mgr_display_inventory (m, w) =
      Inr ((m\<lparr>mg_semops := Sem_Done # Sem_Done # es\<rparr>, w), shown)"
    using display_done [OF assms] by auto
  obtain a r where a: "scan_s 49 (mg_stdin m) = (a, r)" by fastforce
  obtain b r2 where b: "fp_scan f r = (b, r2)" by fastforce
  show ?thesis
  proof (cases "a = None \<or> b = None \<or> fp_le f (the b) (fp_zero f)")
    case True
    with d a b assms(1) show ?thesis
      by (cases a; cases b) (auto simp: update_price_def Let_def)
  next
    case False
    then obtain name p where n: "a = Some name" "b = Some p" "\<not> fp_le f p (fp_zero f)" by auto
    obtain m' outs where "update_price f (m, w) =
      Inr ((m', w\<lparr>w_inv := updated (it_price_update (\<lambda>_. p)) (cstr name) (w_inv w)\<rparr>), outs)"
      by (rule price_run [OF assms a [unfolded n] b [unfolded n] n(3)])
    with updated_price [OF assms(1), of p "cstr name"] show ?thesis by (simp add: turn_effect_def)
  qed
qed

lemma display_turn:
  assumes "wf_inventory (w_inv w)" and "0 < w_sem w"
    and "mg_semops m = Sem_Done # Sem_Done # es"
  shows "\<exists>s' outs. mgr_display_inventory (m, w) = Inr (s', outs) \<and> turn_effect 0 w (snd s')"
  using display_done [OF assms] assms(1) by auto

text \<open>
  The turn ends, unless the menu spins at the end of its input, before it has touched anything.
\<close>

lemma manager_turn:
  assumes "wf_inventory (w_inv w)" and "0 < w_sem w" and "calm m"
  shows "(\<exists>s' outs. manager_iteration f (m, w) = Inr (s', outs) \<and>
            turn_effect (restock_typed (mg_stdin m)) w (snd s')) \<or>
    manager_iteration f (m, w) = Inl Diverges"
proof -
  obtain es where es: "mg_semops m = Sem_Done # Sem_Done # Sem_Done # Sem_Done # es"
    by (rule calm_semops [OF assms(3)])
  obtain a r where a: "scan_d (mg_stdin m) = (a, r)" by fastforce
  show ?thesis
  proof (cases a)
    case None
    with a assms(1) show ?thesis
      by (auto simp: manager_iteration_def Let_def split: option.splits)
  next
    case (Some choice)
    have "mg_semops (mgr_read r m) = Sem_Done # Sem_Done # Sem_Done # Sem_Done # es" by (simp add: es)
    note turns = display_turn [OF assms(1,2) this] restock_turn [OF assms(1,2) this]
      price_turn [OF assms(1,2) this, of f]
    have r: "mg_stdin (mgr_read r m) = r" by (simp add: mgr_read_def)
    show ?thesis
      using turns assms(1)
      by (auto simp: manager_iteration_def restock_typed_def Let_def a Some r)
  qed
qed

section \<open>The notification thread drains the queue\<close>

fun notification_of :: "'d msg \<Rightarrow> notify_msg option" where
  "notification_of (Notify_Msg m) = Some m"
| "notification_of (Order_Msg m) = None"

text \<open>The notifications of a type that are queued, oldest first.\<close>

definition pending :: "int \<Rightarrow> 'd msgq \<Rightarrow> notify_msg list" where
  "pending t q = List.map_filter notification_of (filter (\<lambda>m. msg_type m = t) (q_msgs q))"

definition is_note :: "'d msg \<Rightarrow> bool" where
  "is_note m \<longleftrightarrow> msg_type m = MSG_NOTIFY_LOW_STOCK \<or> msg_type m = MSG_NOTIFY_OUT_OF_STOCK"

lemma msg_ok_note:
  "msg_ok m \<Longrightarrow> is_note m \<Longrightarrow> \<exists>n. m = Notify_Msg n"
  by (cases m) (auto simp: is_note_def shop_consts)

lemma pending_Nil:
  "\<forall>m \<in> set (q_msgs q). msg_type m \<noteq> t \<Longrightarrow> pending t q = []"
  by (simp add: pending_def filter_empty_conv map_filter_def)

lemma rcv_note:
  assumes "msgrcv t q = IPC_Ok (m, q')" and "t = MSG_NOTIFY_LOW_STOCK \<or> t = MSG_NOTIFY_OUT_OF_STOCK"
    and "\<forall>m \<in> set (q_msgs q). msg_ok m"
  shows "\<exists>n. m = Notify_Msg n \<and> nm_mtype n = t \<and> pending t q = n # pending t q' \<and>
     (\<forall>u. u \<noteq> t \<longrightarrow> pending u q' = pending u q) \<and>
     filter (\<lambda>x. \<not> is_note x) (q_msgs q') = filter (\<lambda>x. \<not> is_note x) (q_msgs q) \<and>
     (\<forall>m \<in> set (q_msgs q'). msg_ok m) \<and> q_removed q' = q_removed q"
proof -
  have ty: "msg_type m = t" by (rule mq.rcv_type [OF assms(1)])
  have ms: "mset (q_msgs q) = add_mset m (mset (q_msgs q'))" by (rule mq.rcv_mset [OF assms(1)])
  then have sets: "set (q_msgs q) = insert m (set (q_msgs q'))"
    by (metis set_mset_add_mset_insert set_mset_mset)
  have "is_note m" using ty assms(2) by (auto simp: is_note_def)
  with sets assms(3) obtain n where n: "m = Notify_Msg n" using msg_ok_note by blast
  have "filter (\<lambda>x. \<not> is_note x) (q_msgs q') = filter (\<lambda>x. \<not> is_note x) (q_msgs q)"
    using mq.rcv_filter_rest [OF assms(1), of "\<lambda>x. \<not> is_note x"] \<open>is_note m\<close> by simp
  with n ty sets assms(3) msgrcv_Ok_fields [OF assms(1)] show ?thesis
    using mq.rcv_filter_same [OF assms(1)] mq.rcv_filter_other [OF assms(1)]
    by (auto simp: pending_def map_filter_simps)
qed

lemma notification_poll_cases:
  assumes "\<not> q_removed q" and "\<forall>m \<in> set (q_msgs q). msg_ok m"
  obtains (none) "notification_poll q = Inr (q, [])" and "pending MSG_NOTIFY_LOW_STOCK q = []"
      and "pending MSG_NOTIFY_OUT_OF_STOCK q = []" and "filter (\<lambda>x. \<not> is_note x) (q_msgs q) = q_msgs q"
  | (one) n q' where "notification_poll q = Inr (q', process_notification n)"
      and "pending MSG_NOTIFY_LOW_STOCK q @ pending MSG_NOTIFY_OUT_OF_STOCK q =
           n # pending MSG_NOTIFY_LOW_STOCK q' @ pending MSG_NOTIFY_OUT_OF_STOCK q'"
      and "filter (\<lambda>x. \<not> is_note x) (q_msgs q') = filter (\<lambda>x. \<not> is_note x) (q_msgs q)"
      and "\<not> q_removed q'" and "\<forall>m \<in> set (q_msgs q'). msg_ok m"
proof (cases "msgrcv MSG_NOTIFY_LOW_STOCK q")
  case (IPC_Ok p)
  then obtain m q' where r: "msgrcv MSG_NOTIFY_LOW_STOCK q = IPC_Ok (m, q')" by (cases p) simp
  from rcv_note [OF r] assms obtain n where "m = Notify_Msg n"
    "pending MSG_NOTIFY_LOW_STOCK q = n # pending MSG_NOTIFY_LOW_STOCK q'"
    "pending MSG_NOTIFY_OUT_OF_STOCK q' = pending MSG_NOTIFY_OUT_OF_STOCK q"
    "filter (\<lambda>x. \<not> is_note x) (q_msgs q') = filter (\<lambda>x. \<not> is_note x) (q_msgs q)"
    "\<not> q_removed q'" "\<forall>m \<in> set (q_msgs q'). msg_ok m"
    by (auto simp: shop_consts)
  with r one show thesis by (simp add: notification_poll_def)
next
  case IPC_Again
  note low = mq.rcv_again [OF IPC_Again]
  show thesis
  proof (cases "msgrcv MSG_NOTIFY_OUT_OF_STOCK q")
    case (IPC_Ok p)
    then obtain m q' where r: "msgrcv MSG_NOTIFY_OUT_OF_STOCK q = IPC_Ok (m, q')" by (cases p) simp
    from rcv_note [OF r] assms obtain n where "m = Notify_Msg n"
      "pending MSG_NOTIFY_OUT_OF_STOCK q = n # pending MSG_NOTIFY_OUT_OF_STOCK q'"
      "pending MSG_NOTIFY_LOW_STOCK q' = pending MSG_NOTIFY_LOW_STOCK q"
      "filter (\<lambda>x. \<not> is_note x) (q_msgs q') = filter (\<lambda>x. \<not> is_note x) (q_msgs q)"
      "\<not> q_removed q'" "\<forall>m \<in> set (q_msgs q'). msg_ok m"
      by (auto simp: shop_consts)
    with r one low IPC_Again show thesis by (simp add: notification_poll_def pending_Nil)
  next
    case 2: IPC_Again
    note out = mq.rcv_again [OF 2]
    have "filter (\<lambda>x. \<not> is_note x) (q_msgs q) = q_msgs q"
      using low out by (simp add: filter_id_conv is_note_def)
    with none low out IPC_Again 2 show thesis by (simp add: notification_poll_def pending_Nil)
  qed (use assms in \<open>simp add: msgrcv_def split: option.splits prod.splits\<close>)
qed (use assms in \<open>simp add: msgrcv_def split: option.splits prod.splits\<close>)

text \<open>C32: After as many turns as there are notifications, the notification thread has printed
  all of them, every low-stock alert before every out-of-stock alert and each kind in the order
  of arrival, and has taken nothing else out of the queue.\<close>

theorem notification_handler_drains:
  assumes "\<not> q_removed q" and "\<forall>m \<in> set (q_msgs q). msg_ok m"
    and "length (pending MSG_NOTIFY_LOW_STOCK q @ pending MSG_NOTIFY_OUT_OF_STOCK q) \<le> n"
  shows "\<exists>q'. notification_handler n q =
      Inr (q', concat (map process_notification
                 (pending MSG_NOTIFY_LOW_STOCK q @ pending MSG_NOTIFY_OUT_OF_STOCK q))) \<and>
    q_msgs q' = filter (\<lambda>x. \<not> is_note x) (q_msgs q)"
  using assms
proof (induction n arbitrary: q)
  case 0
  from 0(1,2) show ?case
    by (rule notification_poll_cases) (use 0 in auto)
next
  case (Suc n)
  from Suc.prems(1,2) show ?case
  proof (cases rule: notification_poll_cases)
    case none
    then have "notification_handler k q = Inr (q, [])" for k by (induction k) auto
    with none show ?thesis by (auto simp del: notification_handler.simps)
  next
    case (one m q')
    from one Suc.prems(3) have "length (pending MSG_NOTIFY_LOW_STOCK q' @ pending MSG_NOTIFY_OUT_OF_STOCK q') \<le> n"
      by (metis Suc_le_mono length_Cons)
    from Suc.IH [OF one(4,5) this] one show ?thesis by auto
  qed
qed

definition alert :: "int \<Rightarrow> int \<Rightarrow> int msg" where
  "alert n ty = Notify_Msg (mk_notification (''Tshirt'' @ replicate 44 NUL) n 10 ty)"

definition alert_queue :: "int msgq" where
  "alert_queue = \<lparr>q_msgs = [alert 0 NOTIFY_OUT_OF_STOCK, Order_Msg (shirt_order 3),
     alert 4 NOTIFY_LOW_STOCK, alert 2 NOTIFY_LOW_STOCK], q_limit = 1000, q_removed = False\<rparr>"

theorem notification_handler_drains_witness:
  "\<exists>q'. notification_handler 3 alert_queue =
      Inr (q', [Alert_Low_Stock ''Tshirt'' 4 10, Mgr_Menu, Alert_Low_Stock ''Tshirt'' 2 10, Mgr_Menu,
                Alert_Out_Of_Stock ''Tshirt'' 0 10, Mgr_Menu]) \<and>
    q_msgs q' = [Order_Msg (shirt_order 3)]"
proof -
  have h: "\<not> q_removed alert_queue" "\<forall>m \<in> set (q_msgs alert_queue). msg_ok m"
    "length (pending MSG_NOTIFY_LOW_STOCK alert_queue @ pending MSG_NOTIFY_OUT_OF_STOCK alert_queue) \<le> 3"
    by code_simp+
  have "concat (map process_notification
      (pending MSG_NOTIFY_LOW_STOCK alert_queue @ pending MSG_NOTIFY_OUT_OF_STOCK alert_queue)) =
    [Alert_Low_Stock ''Tshirt'' 4 10, Mgr_Menu, Alert_Low_Stock ''Tshirt'' 2 10, Mgr_Menu,
     Alert_Out_Of_Stock ''Tshirt'' 0 10, Mgr_Menu :: int mgr_out]"
    by code_simp
  moreover have "filter (\<lambda>x. \<not> is_note x) (q_msgs alert_queue) = [Order_Msg (shirt_order 3)]"
    by code_simp
  ultimately show ?thesis using notification_handler_drains [OF h] by (simp del: notification_handler.simps)
qed

section \<open>The manager keeps the shared memory well formed\<close>

lemma sem_op_inv:
  "in_bounds (\<lambda>(_, _, w'). w_inv w' = w_inv w \<and> w_queue w' = w_queue w) (sem_op d es running w)"
  by (induction d es running w rule: sem_op.induct) (simp_all add: Let_def)

abbreviation safe_state :: "manager \<times> 'd world \<Rightarrow> bool" where
  "safe_state s \<equiv> world_safe (snd s)"

lemma mgr_sem_safe [c_safe]:
  assumes "safe_state s"
  shows "in_bounds safe_state (mgr_sem_lock s)" and "in_bounds safe_state (mgr_sem_unlock s)"
  using assms
  by (cases s; auto simp: mgr_sem_lock_def mgr_sem_unlock_def world_safe_def intro!: in_bounds_bind [OF sem_op_inv])+

lemma mgr_display_safe [c_safe]:
  "safe_state s \<Longrightarrow> in_bounds (\<lambda>(s', _). safe_state s') (mgr_display_inventory s)"
  by (auto simp: mgr_display_inventory_def Let_def world_safe_def wf_inventory_def
      intro!: in_bounds_bind [OF mgr_sem_safe(1)] in_bounds_bind [OF mgr_sem_safe(2)])

lemma update_item_safe:
  assumes "safe_state s" and "\<And>it. item_ok it \<Longrightarrow> item_ok (upd it)"
  shows "in_bounds (\<lambda>(_, s'). safe_state s') (update_item upd name s)"
proof -
  have found: "in_bounds (\<lambda>(_, s'). safe_state s')
      (c_bind (find_item (w_inv w1) name) (\<lambda>found.
         let w2 = (case found of
                     Some i \<Rightarrow> w1\<lparr>w_inv := put_item (w_inv w1) i (upd (get_item (w_inv w1) i))\<rparr>
                   | None \<Rightarrow> w1)
         in c_bind (mgr_sem_unlock (m1, w2)) (\<lambda>s3. Inr (found \<noteq> None, s3))))"
    if w: "world_safe w1" for m1 w1
  proof (rule store.find_cases [of "w_inv w1" name])
    show "wf_inventory (w_inv w1)" using w by (simp add: world_safe_def)
    assume "find_item (w_inv w1) name = Inr None"
    then show ?thesis using w by (auto intro!: in_bounds_bind [OF mgr_sem_safe(2)])
  next
    fix i assume i: "find_item (w_inv w1) name = Inr (Some i)" "item_ok (get_item (w_inv w1) i)"
    then have "world_safe (w1\<lparr>w_inv := put_item (w_inv w1) i (upd (get_item (w_inv w1) i))\<rparr>)"
      using w store.put_wf [OF _ i(1) assms(2) [OF i(2)]] by (simp add: world_safe_def)
    with i(1) show ?thesis by (auto simp: Let_def intro!: in_bounds_bind [OF mgr_sem_safe(2)])
  qed
  show ?thesis
    unfolding update_item_def
    by (rule in_bounds_bind [OF mgr_sem_safe(1) [OF assms(1)]]) (use found in \<open>simp add: case_prod_beta Let_def\<close>)
qed

lemma restock_item_safe [c_safe]:
  assumes "safe_state s"
  shows "in_bounds (\<lambda>(s', _). safe_state s') (restock_item s)"
  unfolding restock_item_def
  by (rule in_bounds_bind [OF mgr_display_safe [OF assms]])
    (auto simp: Let_def add_quantity_ok split: prod.splits option.splits
      intro!: in_bounds_bind [OF update_item_safe])

lemma update_price_safe [c_safe]:
  assumes "safe_state s"
  shows "in_bounds (\<lambda>(s', _). safe_state s') (update_price f s)"
  unfolding update_price_def
  by (rule in_bounds_bind [OF mgr_display_safe [OF assms]])
    (auto simp: Let_def set_price_ok split: prod.splits option.splits
      intro!: in_bounds_bind [OF update_item_safe])

lemma manager_iteration_safe:
  "safe_state s \<Longrightarrow> in_bounds (\<lambda>(s', _). safe_state s') (manager_iteration f s)"
  by (auto simp: manager_iteration_def Let_def split: prod.splits option.splits
      intro!: c_safe [THEN in_bounds_bind])

lemma notification_handler_safe:
  "world_safe w \<Longrightarrow> in_bounds (\<lambda>(q, _). world_safe (w\<lparr>w_queue := q\<rparr>)) (notification_handler n (w_queue w))"
proof (induction n arbitrary: w)
  case (Suc n)
  have "in_bounds (\<lambda>(q, _). world_safe (w\<lparr>w_queue := q\<rparr>)) (notification_poll (w_queue w))"
    using msgrcv_safe [OF Suc.prems, of MSG_NOTIFY_LOW_STOCK] msgrcv_safe [OF Suc.prems, of MSG_NOTIFY_OUT_OF_STOCK]
      Suc.prems
    by (auto simp: notification_poll_def shop_consts split: ipc_res.splits msg.splits prod.splits)
  then show ?case
    unfolding notification_handler.simps
  proof (rule in_bounds_bind)
    fix y :: "'a msgq \<times> 'a mgr_out list"
    assume y: "case y of (q, _) \<Rightarrow> world_safe (w\<lparr>w_queue := q\<rparr>)"
    obtain q o1 where q: "y = (q, o1)" by fastforce
    with Suc.IH [of "w\<lparr>w_queue := q\<rparr>"] y
    have "in_bounds (\<lambda>(q', _). world_safe (w\<lparr>w_queue := q'\<rparr>)) (notification_handler n q)" by simp
    then show "in_bounds (\<lambda>(q, _). world_safe (w\<lparr>w_queue := q\<rparr>)) (case y of (q1, o1) \<Rightarrow>
        c_bind (notification_handler n q1) (\<lambda>(q2, o2). Inr (q2, o1 @ o2)))"
      unfolding q by (auto intro!: in_bounds_bind)
  qed
qed simp

lemma manager_loop_safe:
  "safe_state s \<Longrightarrow> in_bounds (\<lambda>(s', _). safe_state s') (manager_loop f polls s)"
proof (induction polls arbitrary: s)
  case (Cons p polls)
  have rest: "in_bounds (\<lambda>(s', _). safe_state s')
      (c_bind (manager_iteration f t) (\<lambda>(s1, o2).
       c_bind (manager_loop f polls s1) (\<lambda>(s2, o3). Inr (s2, o1 @ o2 @ o3))))" if t: "safe_state t" for t o1
    by (rule in_bounds_bind [OF manager_iteration_safe [OF t]])
      (auto intro!: in_bounds_bind [OF Cons.IH])
  show ?case
    using Cons.prems
    by (auto intro!: in_bounds_bind [OF notification_handler_safe] rest)
qed simp

text \<open>C31: Whatever the manager types, however its semaphore calls end, whenever the signal comes and
  however the notification thread runs beside the menu: the inventory stays well formed, the
  queue holds messages of the three programs only, and no array is accessed outside its bounds.\<close>

theorem manager_loop_keeps_world:
  assumes "world_safe w"
  shows "case manager_loop f polls (m, w) of
      Inr ((m', w'), outs) \<Rightarrow> wf_inventory (w_inv w') \<and> (\<forall>x \<in> set (q_msgs (w_queue w')). msg_ok x)
    | Inl e \<Rightarrow> e \<noteq> Out_Of_Bounds"
  using manager_loop_safe [of "(m, w)" f polls] assms
  by (auto simp: in_bounds_def world_safe_def split: sum.splits)

definition alert_world :: "int world" where
  "alert_world = (shirt_world 1000)\<lparr>w_queue := alert_queue\<rparr>"

theorem manager_loop_keeps_world_witness:
  "case manager_loop cents [1, 1, 1] (clerk ''2 Tshirt 25 1 4'' [Sem_Intr False, Sem_Done, Sem_Done, Sem_Fail, Sem_Done,
        Sem_Intr True, Sem_Done], alert_world) of
      Inr ((m', w'), outs) \<Rightarrow> wf_inventory (w_inv w') \<and> (\<forall>x \<in> set (q_msgs (w_queue w')). msg_ok x)
    | Inl e \<Rightarrow> e \<noteq> Out_Of_Bounds"
proof (rule manager_loop_keeps_world)
  show "world_safe alert_world"
    by (simp add: world_safe_def alert_world_def shirt_world_def wf_shirts alert_queue_def alert_def
        mk_notification_def shirt_order_def)
qed

end
