(* ===== verification/Shop_System.thy ===== *)
theory Shop_System
  imports Customer_Process Inventory_Manager
begin

text \<open>
  The shop and the manager running at the same time on the shared inventory. The handlers of
  \<^verbatim>\<open>Shop_Process\<close> and \<^verbatim>\<open>Inventory_Manager\<close> are cut into their steps:
  taking the semaphore, reading the quantity, writing the new one, freeing the semaphore; the
  manager's display and its change of a price are critical sections of their own. The step
  relation has a flag that allows the signal which makes the manager's \<^verbatim>\<open>sem_lock\<close> return
  without the semaphore while it waits for it. After that signal the real manager leaves its menu
  and exits, and \<^verbatim>\<open>SEM_UNDO\<close> then takes its unlock back; in the model it may start again at once,
  as another manager would. The ghost fields count what the processes have sold and restocked.
  The second part puts the shop's own loop among its clients.
\<close>

section \<open>Steps\<close>

datatype shop_pc = S_Idle | S_Locked string int | S_Write nat int string int | S_Unlock
datatype 'd mgr_pc =
    M_Idle | M_Locked string int | M_Write nat int string int | M_Look | M_Reprice string 'd | M_Unlock

record 'd sys =
  s_inv :: "'d shared_inventory"
  s_sem :: int
  s_shop :: shop_pc
  s_mgr :: "'d mgr_pc"
  s_sold :: "string \<Rightarrow> int"
  s_restocked :: "string \<Rightarrow> int"

definition write_quantity :: "nat \<Rightarrow> int \<Rightarrow> 'd shared_inventory \<Rightarrow> 'd shared_inventory" where
  "write_quantity i v iv = put_item iv i (set_quantity v (get_item iv i))"

definition write_price :: "nat \<Rightarrow> 'd \<Rightarrow> 'd shared_inventory \<Rightarrow> 'd shared_inventory" where
  "write_price i p iv = put_item iv i ((get_item iv i)\<lparr>it_price := p\<rparr>)"

text \<open>The manager enters with what it is going to do: restock, display or reprice.\<close>

fun mgr_entry :: "'d mgr_pc \<Rightarrow> bool" where
  "mgr_entry (M_Locked name n) = True"
| "mgr_entry M_Look = True"
| "mgr_entry (M_Reprice name p) = True"
| "mgr_entry _ = False"

inductive sys_step :: "bool \<Rightarrow> 'd sys \<Rightarrow> 'd sys \<Rightarrow> bool" for signals :: bool where
  shop_lock: "s_shop s = S_Idle \<Longrightarrow> 0 < s_sem s \<Longrightarrow>
    sys_step signals s (s\<lparr>s_shop := S_Locked name n, s_sem := s_sem s - 1\<rparr>)"
| shop_read: "s_shop s = S_Locked name n \<Longrightarrow> find_item (s_inv s) name = Inr (Some i) \<Longrightarrow>
    n \<le> it_quantity (get_item (s_inv s) i) \<Longrightarrow>
    sys_step signals s
      (s\<lparr>s_shop := S_Write i (wrap32 (it_quantity (get_item (s_inv s) i) - n)) name n\<rparr>)"
| shop_reject: "s_shop s = S_Locked name n \<Longrightarrow> find_item (s_inv s) name = Inr (Some i) \<Longrightarrow>
    it_quantity (get_item (s_inv s) i) < n \<Longrightarrow> sys_step signals s (s\<lparr>s_shop := S_Unlock\<rparr>)"
| shop_missing: "s_shop s = S_Locked name n \<Longrightarrow> find_item (s_inv s) name = Inr None \<Longrightarrow>
    sys_step signals s (s\<lparr>s_shop := S_Unlock\<rparr>)"
| shop_write: "s_shop s = S_Write i v name n \<Longrightarrow>
    sys_step signals s (s\<lparr>s_inv := write_quantity i v (s_inv s), s_shop := S_Unlock,
                          s_sold := (s_sold s)(name := s_sold s name + n)\<rparr>)"
| shop_unlock: "s_shop s = S_Unlock \<Longrightarrow>
    sys_step signals s (s\<lparr>s_shop := S_Idle, s_sem := s_sem s + 1\<rparr>)"
| mgr_lock: "s_mgr s = M_Idle \<Longrightarrow> 0 < s_sem s \<Longrightarrow> mgr_entry pc \<Longrightarrow>
    sys_step signals s (s\<lparr>s_mgr := pc, s_sem := s_sem s - 1\<rparr>)"
| mgr_lock_interrupted: "signals \<Longrightarrow> s_mgr s = M_Idle \<Longrightarrow> s_sem s \<le> 0 \<Longrightarrow> mgr_entry pc \<Longrightarrow>
    sys_step signals s (s\<lparr>s_mgr := pc\<rparr>)"
| mgr_read: "s_mgr s = M_Locked name n \<Longrightarrow> find_item (s_inv s) name = Inr (Some i) \<Longrightarrow>
    sys_step signals s
      (s\<lparr>s_mgr := M_Write i (wrap32 (it_quantity (get_item (s_inv s) i) + n)) name n\<rparr>)"
| mgr_missing: "s_mgr s = M_Locked name n \<Longrightarrow> find_item (s_inv s) name = Inr None \<Longrightarrow>
    sys_step signals s (s\<lparr>s_mgr := M_Unlock\<rparr>)"
| mgr_write: "s_mgr s = M_Write i v name n \<Longrightarrow>
    sys_step signals s (s\<lparr>s_inv := write_quantity i v (s_inv s), s_mgr := M_Unlock,
                          s_restocked := (s_restocked s)(name := s_restocked s name + n)\<rparr>)"
| mgr_look: "s_mgr s = M_Look \<Longrightarrow> sys_step signals s (s\<lparr>s_mgr := M_Unlock\<rparr>)"
| mgr_reprice: "s_mgr s = M_Reprice name p \<Longrightarrow> find_item (s_inv s) name = Inr (Some i) \<Longrightarrow>
    sys_step signals s (s\<lparr>s_inv := write_price i p (s_inv s), s_mgr := M_Unlock\<rparr>)"
| mgr_reprice_missing: "s_mgr s = M_Reprice name p \<Longrightarrow> find_item (s_inv s) name = Inr None \<Longrightarrow>
    sys_step signals s (s\<lparr>s_mgr := M_Unlock\<rparr>)"
| mgr_unlock: "s_mgr s = M_Unlock \<Longrightarrow>
    sys_step signals s (s\<lparr>s_mgr := M_Idle, s_sem := s_sem s + 1\<rparr>)"

definition init_sys :: "'d shared_inventory \<Rightarrow> 'd sys" where
  "init_sys iv = \<lparr>s_inv = iv, s_sem = 1, s_shop = S_Idle, s_mgr = M_Idle,
                  s_sold = (\<lambda>_. 0), s_restocked = (\<lambda>_. 0)\<rparr>"

inductive sys_reach :: "bool \<Rightarrow> 'd shared_inventory \<Rightarrow> 'd sys \<Rightarrow> bool"
  for signals :: bool and iv :: "'d shared_inventory" where
  start: "sys_reach signals iv (init_sys iv)"
| step: "sys_reach signals iv s \<Longrightarrow> sys_step signals s t \<Longrightarrow> sys_reach signals iv t"

section \<open>The invariant\<close>

definition shop_in :: "'d sys \<Rightarrow> bool" where
  "shop_in s \<longleftrightarrow> s_shop s \<noteq> S_Idle"

definition mgr_in :: "'d sys \<Rightarrow> bool" where
  "mgr_in s \<longleftrightarrow> s_mgr s \<noteq> M_Idle"

text \<open>Whoever is about to write has found the item and read the quantity it still has.\<close>

definition write_ok :: "'d sys \<Rightarrow> bool" where
  "write_ok s \<longleftrightarrow>
     (case s_shop s of
        S_Write i v name n \<Rightarrow> find_item (s_inv s) name = Inr (Some i) \<and>
          v = wrap32 (it_quantity (get_item (s_inv s) i) - n)
      | _ \<Rightarrow> True) \<and>
     (case s_mgr s of
        M_Write i v name n \<Rightarrow> find_item (s_inv s) name = Inr (Some i) \<and>
          v = wrap32 (it_quantity (get_item (s_inv s) i) + n)
      | _ \<Rightarrow> True)"

definition balanced :: "'d shared_inventory \<Rightarrow> 'd sys \<Rightarrow> bool" where
  "balanced iv s \<longleftrightarrow> (\<forall>k. stock (s_inv s) k =
     map_option (\<lambda>h. wrap32 (h + s_restocked s k - s_sold s k)) (stock iv k))"

definition sys_inv :: "'d shared_inventory \<Rightarrow> 'd sys \<Rightarrow> bool" where
  "sys_inv iv s \<longleftrightarrow> wf_inventory (s_inv s) \<and> \<not> (shop_in s \<and> mgr_in s) \<and>
     s_sem s = (if shop_in s \<or> mgr_in s then 0 else 1) \<and> write_ok s \<and> balanced iv s"

lemmas sys_defs = sys_inv_def shop_in_def mgr_in_def write_ok_def

lemma write_quantity_stock:
  assumes "wf_inventory iv" and "find_item iv name = Inr (Some i)" and "in32 v"
  shows "stock (write_quantity i v iv) = (stock iv)(name \<mapsto> v)" and "wf_inventory (write_quantity i v iv)"
  using stock_put [OF assms] store.adjust(1) [OF assms] by (simp_all add: write_quantity_def)

lemma write_price_stock:
  assumes "wf_inventory iv" and "find_item iv name = Inr (Some i)"
  shows "stock (write_price i p iv) = stock iv" and "wf_inventory (write_price i p iv)"
  using updated_price(1,2) [OF assms(1), of p name] assms(2) by (simp_all add: updated_def write_price_def)

lemma balanced_write:
  assumes "wf_inventory (s_inv s)" and "find_item (s_inv s) name = Inr (Some i)"
    and "balanced iv s" and "v = wrap32 (it_quantity (get_item (s_inv s) i) + d)"
    and "s_inv t = write_quantity i v (s_inv s)"
    and "\<And>k. s_restocked t k - s_sold t k = s_restocked s k - s_sold s k + (if k = name then d else 0)"
  shows "balanced iv t"
proof -
  have q: "stock (s_inv s) name = Some (it_quantity (get_item (s_inv s) i))"
    using store.find_some [OF assms(1,2)] by (simp add: stock_def)
  with assms(3) obtain h where h: "stock iv name = Some h"
    and e: "it_quantity (get_item (s_inv s) i) = wrap32 (h + s_restocked s name - s_sold s name)"
    by (auto simp: balanced_def dest: spec [of _ name])
  have "v = wrap32 (h + s_restocked s name - s_sold s name + d)"
    by (simp add: assms(4) e wrap32_add_wrap)
  moreover have "h + s_restocked s name - s_sold s name + d = h + s_restocked t name - s_sold t name"
    using assms(6) [of name] by simp
  ultimately have v: "v = wrap32 (h + s_restocked t name - s_sold t name)" by simp
  have "s_restocked t k - s_sold t k = s_restocked s k - s_sold s k" if "k \<noteq> name" for k
    using assms(6) [of k] that by simp
  then have e2: "(\<lambda>z. wrap32 (z + s_restocked t k - s_sold t k)) =
      (\<lambda>z. wrap32 (z + s_restocked s k - s_sold s k))" if "k \<noteq> name" for k
    using that by (metis add_diff_eq)
  have st: "stock (s_inv t) = (stock (s_inv s))(name \<mapsto> v)"
    using assms(4) by (simp add: assms(5) write_quantity_stock [OF assms(1,2)])
  show ?thesis
    unfolding balanced_def
  proof
    fix k
    show "stock (s_inv t) k = map_option (\<lambda>h. wrap32 (h + s_restocked t k - s_sold t k)) (stock iv k)"
      using assms(3) h v e2 [of k] st by (cases "k = name") (simp_all add: balanced_def)
  qed
qed

lemma sys_step_inv:
  assumes "sys_step False s t" and "sys_inv iv s"
  shows "sys_inv iv t"
  using assms
proof (induction rule: sys_step.induct)
  case (shop_write s i v name n)
  then have f: "find_item (s_inv s) name = Inr (Some i)" "wf_inventory (s_inv s)" "balanced iv s"
    and v: "v = wrap32 (it_quantity (get_item (s_inv s) i) + - n)" and m: "s_mgr s = M_Idle"
    by (auto simp: sys_defs)
  have "balanced iv (s\<lparr>s_inv := write_quantity i v (s_inv s), s_shop := S_Unlock,
                       s_sold := (s_sold s)(name := s_sold s name + n)\<rparr>)"
    by (rule balanced_write [OF f(2,1,3) v]) simp_all
  moreover have "in32 v" by (simp add: v)
  ultimately show ?case
    using shop_write m write_quantity_stock(2) [OF f(2,1)] by (simp add: sys_defs)
next
  case (mgr_write s i v name n)
  then have f: "find_item (s_inv s) name = Inr (Some i)" "wf_inventory (s_inv s)" "balanced iv s"
    and v: "v = wrap32 (it_quantity (get_item (s_inv s) i) + n)" and m: "s_shop s = S_Idle"
    by (auto simp: sys_defs)
  have "balanced iv (s\<lparr>s_inv := write_quantity i v (s_inv s), s_mgr := M_Unlock,
                       s_restocked := (s_restocked s)(name := s_restocked s name + n)\<rparr>)"
    by (rule balanced_write [OF f(2,1,3) v]) simp_all
  moreover have "in32 v" by (simp add: v)
  ultimately show ?case
    using mgr_write m write_quantity_stock(2) [OF f(2,1)] by (simp add: sys_defs)
next
  case (mgr_reprice s name p i)
  then have f: "find_item (s_inv s) name = Inr (Some i)" "wf_inventory (s_inv s)" and m: "s_shop s = S_Idle"
    by (auto simp: sys_defs)
  with mgr_reprice write_price_stock [OF f(2,1), of p] show ?case by (simp add: sys_defs balanced_def)
next
  case (mgr_lock s pc)
  then show ?case by (cases pc) (auto simp: sys_defs balanced_def split: if_splits)
qed (auto simp: sys_defs balanced_def split: if_splits shop_pc.splits mgr_pc.splits)

lemma sys_inv_init:
  assumes "wf_inventory iv"
  shows "sys_inv iv (init_sys iv)"
proof -
  have "map_option (\<lambda>h. wrap32 (h + 0 - 0)) (stock iv k) = stock iv k" for k
    using wf_inventory_stock_in32 [OF assms] by (cases "stock iv k") auto
  with assms show ?thesis by (simp add: sys_defs balanced_def init_sys_def)
qed

lemma sys_reach_inv: "sys_reach False iv s \<Longrightarrow> wf_inventory iv \<Longrightarrow> sys_inv iv s"
  by (induction rule: sys_reach.induct) (auto intro: sys_inv_init sys_step_inv)

text \<open>C2: In every interleaving of the shop and the manager without interrupted semaphore calls,
  the two are never in their critical sections together, and no update is lost: the stock of
  every item is the initial one plus what was restocked minus what was sold.\<close>

theorem no_lost_update:
  assumes "sys_reach False iv s" and "wf_inventory iv"
  shows "\<not> (shop_in s \<and> mgr_in s) \<and>
    stock (s_inv s) k = map_option (\<lambda>h. wrap32 (h + s_restocked s k - s_sold s k)) (stock iv k)"
  using sys_reach_inv [OF assms] by (auto simp: sys_inv_def balanced_def)

section \<open>Runs of one process\<close>

lemma three_steps: "R a b \<Longrightarrow> R b c \<Longrightarrow> R c d \<Longrightarrow> tranclp R a d"
  by (meson tranclp.r_into_trancl tranclp.trancl_into_trancl)

lemma four_steps: "R a b \<Longrightarrow> R b c \<Longrightarrow> R c d \<Longrightarrow> R d e \<Longrightarrow> tranclp R a e"
  by (meson three_steps tranclp.trancl_into_trancl)

lemma shop_run_sold:
  assumes "s_shop s = S_Idle" and "0 < s_sem s" and "find_item (s_inv s) name = Inr (Some i)"
    and "n \<le> it_quantity (get_item (s_inv s) i)"
  shows "tranclp (sys_step sg) s
    (s\<lparr>s_inv := write_quantity i (wrap32 (it_quantity (get_item (s_inv s) i) - n)) (s_inv s),
       s_sold := (s_sold s)(name := s_sold s name + n)\<rparr>)" (is "tranclp _ s ?t")
proof -
  let ?v = "wrap32 (it_quantity (get_item (s_inv s) i) - n)"
  let ?s1 = "s\<lparr>s_shop := S_Locked name n, s_sem := s_sem s - 1\<rparr>"
  let ?s2 = "?s1\<lparr>s_shop := S_Write i ?v name n\<rparr>"
  let ?s3 = "?s2\<lparr>s_inv := write_quantity i ?v (s_inv s), s_shop := S_Unlock,
                 s_sold := (s_sold s)(name := s_sold s name + n)\<rparr>"
  let ?s4 = "?s3\<lparr>s_shop := S_Idle, s_sem := s_sem ?s3 + 1\<rparr>"
  have a1: "sys_step sg s ?s1" using assms by (intro shop_lock)
  have a2: "sys_step sg ?s1 ?s2" using shop_read [of ?s1 name n i sg] assms by simp
  have a3: "sys_step sg ?s2 ?s3" using shop_write [of ?s2 i ?v name n sg] by simp
  have a4: "sys_step sg ?s3 ?s4" by (rule shop_unlock) simp
  have e: "?s4 = ?t" using assms(1) by simp
  show ?thesis using four_steps [of "sys_step sg", OF a1 a2 a3 a4] unfolding e .
qed

lemma mgr_run:
  assumes "s_mgr s = M_Idle" and "0 < s_sem s" and "find_item (s_inv s) name = Inr (Some i)"
  shows "tranclp (sys_step sg) s
    (s\<lparr>s_inv := write_quantity i (wrap32 (it_quantity (get_item (s_inv s) i) + n)) (s_inv s),
       s_restocked := (s_restocked s)(name := s_restocked s name + n)\<rparr>)" (is "tranclp _ s ?t")
proof -
  let ?v = "wrap32 (it_quantity (get_item (s_inv s) i) + n)"
  let ?s1 = "s\<lparr>s_mgr := M_Locked name n, s_sem := s_sem s - 1\<rparr>"
  let ?s2 = "?s1\<lparr>s_mgr := M_Write i ?v name n\<rparr>"
  let ?s3 = "?s2\<lparr>s_inv := write_quantity i ?v (s_inv s), s_mgr := M_Unlock,
                 s_restocked := (s_restocked s)(name := s_restocked s name + n)\<rparr>"
  let ?s4 = "?s3\<lparr>s_mgr := M_Idle, s_sem := s_sem ?s3 + 1\<rparr>"
  have a1: "sys_step sg s ?s1" using assms by (intro mgr_lock) simp_all
  have a2: "sys_step sg ?s1 ?s2" using mgr_read [of ?s1 name n i sg] assms by simp
  have a3: "sys_step sg ?s2 ?s3" using mgr_write [of ?s2 i ?v name n sg] by simp
  have a4: "sys_step sg ?s3 ?s4" by (rule mgr_unlock) simp
  have e: "?s4 = ?t" using assms(1) by simp
  show ?thesis using four_steps [of "sys_step sg", OF a1 a2 a3 a4] unfolding e .
qed

text \<open>An order that is refused, or a name that is not there, changes nothing.\<close>

lemma shop_run_refused:
  assumes "s_shop s = S_Idle" and "0 < s_sem s"
    and "find_item (s_inv s) name = Inr None \<or>
      find_item (s_inv s) name = Inr (Some i) \<and> it_quantity (get_item (s_inv s) i) < n"
  shows "tranclp (sys_step sg) s s"
proof -
  let ?s1 = "s\<lparr>s_shop := S_Locked name n, s_sem := s_sem s - 1\<rparr>"
  let ?s2 = "?s1\<lparr>s_shop := S_Unlock\<rparr>"
  let ?s3 = "?s2\<lparr>s_shop := S_Idle, s_sem := s_sem ?s2 + 1\<rparr>"
  have a1: "sys_step sg s ?s1" using assms(1,2) by (intro shop_lock)
  have a2: "sys_step sg ?s1 ?s2"
    using assms(3) shop_reject [of ?s1 name n i sg] shop_missing [of ?s1 name n sg] by auto
  have a3: "sys_step sg ?s2 ?s3" by (rule shop_unlock) simp
  have e: "?s3 = s" using assms(1) by simp
  show ?thesis using three_steps [of "sys_step sg", OF a1 a2 a3] unfolding e .
qed

lemma mgr_run_missing:
  assumes "s_mgr s = M_Idle" and "0 < s_sem s" and "find_item (s_inv s) name = Inr None"
  shows "tranclp (sys_step sg) s s"
proof -
  let ?s1 = "s\<lparr>s_mgr := M_Locked name n, s_sem := s_sem s - 1\<rparr>"
  let ?s2 = "?s1\<lparr>s_mgr := M_Unlock\<rparr>"
  let ?s3 = "?s2\<lparr>s_mgr := M_Idle, s_sem := s_sem ?s2 + 1\<rparr>"
  have a1: "sys_step sg s ?s1" using assms(1,2) by (intro mgr_lock) simp_all
  have a2: "sys_step sg ?s1 ?s2" using mgr_missing [of ?s1 name n sg] assms(3) by simp
  have a3: "sys_step sg ?s2 ?s3" by (rule mgr_unlock) simp
  have e: "?s3 = s" using assms(1) by simp
  show ?thesis using three_steps [of "sys_step sg", OF a1 a2 a3] unfolding e .
qed

lemma sys_reach_trans: "tranclp (sys_step sg) s t \<Longrightarrow> sys_reach sg iv s \<Longrightarrow> sys_reach sg iv t"
  by (induction rule: tranclp.induct) (auto intro: sys_reach.step)

definition sold_and_restocked :: "int sys" where
  "sold_and_restocked =
     (let s1 = (init_sys shirts)\<lparr>s_inv := write_quantity 0 (wrap32 (50 - 8)) shirts,
                                 s_sold := (\<lambda>_. 0)(''Tshirt'' := 0 + 8)\<rparr>
      in s1\<lparr>s_inv := write_quantity 0 (wrap32 (it_quantity (get_item (s_inv s1) 0) + 5)) (s_inv s1),
            s_restocked := (\<lambda>_. 0)(''Tshirt'' := 0 + 5)\<rparr>)"

theorem no_lost_update_witness:
  "sys_reach False shirts sold_and_restocked \<and> stock (s_inv sold_and_restocked) ''Tshirt'' = Some 47"
proof -
  let ?s1 = "(init_sys shirts)\<lparr>s_inv := write_quantity 0 (wrap32 (50 - 8)) shirts,
                               s_sold := (\<lambda>_. 0)(''Tshirt'' := 0 + 8)\<rparr>"
  have r1: "tranclp (sys_step False) (init_sys shirts) ?s1"
    using shop_run_sold [of "init_sys shirts" "''Tshirt''" 0 8 False]
    by (simp add: init_sys_def find_shirts get_shirts)
  have f: "find_item (write_quantity 0 (wrap32 (50 - 8)) shirts) ''Tshirt'' = Inr (Some 0)"
    by code_simp
  have r2: "tranclp (sys_step False) ?s1 sold_and_restocked"
    using mgr_run [of ?s1 "''Tshirt''" 0 False 5] f
    by (simp add: init_sys_def sold_and_restocked_def Let_def)
  have r: "sys_reach False shirts sold_and_restocked"
    using r1 r2 by (meson sys_reach.start sys_reach_trans)
  show ?thesis
    using r no_lost_update [OF r wf_shirts, of "''Tshirt''"]
    by (simp add: stock_shirts sold_and_restocked_def init_sys_def Let_def wrap32_def)
qed

section \<open>The handlers are runs\<close>

text \<open>C3: The order handler, taken as one action, is a run of the steps: from an idle shop to an
  idle shop, with the same inventory and semaphore, counted as sold exactly when it reports
  success. What is proved of all interleavings of the steps holds for the handler.\<close>

theorem process_order_is_run:
  assumes "wf_inventory (w_inv w)" and "process_order f m w = Inr (m', w')"
    and "s_inv s = w_inv w" and "s_sem s = w_sem w" and "s_shop s = S_Idle"
  shows "\<exists>t. tranclp (sys_step sg) s t \<and> s_inv t = w_inv w' \<and> s_sem t = w_sem w' \<and>
    s_shop t = S_Idle \<and> s_mgr t = s_mgr s \<and> s_restocked t = s_restocked s \<and>
    s_sold t = (if om_status m' = 1 then (s_sold s)(cstr (om_item_name m) :=
                  s_sold s (cstr (om_item_name m)) + om_quantity m) else s_sold s)"
  using assms(1,2)
proof (cases rule: process_order_cases)
  case (missing q)
  with assms(3-5) have "tranclp (sys_step sg) s s" by (intro shop_run_refused) auto
  with missing assms(3-5) show ?thesis by (intro exI [of _ s]) simp
next
  case (found i m2 w2 q)
  let ?k = "cstr (om_item_name m)"
  let ?it = "get_item (w_inv w) i"
  show ?thesis
  proof (cases "om_quantity m \<le> it_quantity ?it")
    case False
    with found(1,3) assms(3-5) have "tranclp (sys_step sg) s s"
      by (intro shop_run_refused [where n = "om_quantity m" and i = i]) auto
    with False found assms(3-5) show ?thesis
      by (intro exI [of _ s]) (auto simp: order_item_def Let_def)
  next
    case True
    let ?v = "wrap32 (it_quantity ?it - om_quantity m)"
    let ?t = "s\<lparr>s_inv := write_quantity i ?v (s_inv s),
                s_sold := (s_sold s)(?k := s_sold s ?k + om_quantity m)\<rparr>"
    have "tranclp (sys_step sg) s ?t"
      using shop_run_sold [of s ?k i "om_quantity m" sg] assms(3-5) found(1,3) True by simp
    moreover have "w_inv w' = write_quantity i ?v (w_inv w) \<and> w_sem w' = w_sem w \<and> om_status m' = 1"
      using found True by (auto simp: order_item_def write_quantity_def Let_def split: if_splits)
    ultimately show ?thesis using assms(3-5) by (intro exI [of _ ?t]) simp
  qed
qed

theorem process_order_is_run_witness:
  "\<exists>m' w' t. process_order cents (shirt_order 8) (shirt_world 1000) = Inr (m', w') \<and>
     tranclp (sys_step False) (init_sys shirts) t \<and> s_inv t = w_inv w' \<and> s_sold t ''Tshirt'' = 8"
proof -
  obtain m' w' where r: "process_order cents (shirt_order 8) (shirt_world 1000) = Inr (m', w')"
    and st: "om_status m' = 1"
    by (simp add: shirt_eval)
  have "wf_inventory (w_inv (shirt_world 1000))"
    "s_inv (init_sys shirts) = w_inv (shirt_world 1000)"
    "s_sem (init_sys shirts) = w_sem (shirt_world 1000)" "s_shop (init_sys shirts) = S_Idle"
    by (simp_all add: shirt_world_def wf_shirts init_sys_def)
  from process_order_is_run [OF this(1) r this(2,3,4), of False] st r show ?thesis
    by (auto simp: shirt_order_def init_sys_def)
qed

text \<open>C29: So is a restock of the manager, with the semaphore calls it makes not interrupted:
  a run from an idle manager to an idle manager that ends in the inventory and the semaphore the
  command leaves, counted as restocked exactly when it reports success.\<close>

theorem restock_item_is_run:
  assumes "wf_inventory (w_inv w)" and "0 < w_sem w"
    and "mg_semops m = Sem_Done # Sem_Done # Sem_Done # Sem_Done # es"
    and "scan_s 49 (mg_stdin m) = (Some name, r)" and "scan_d r = (Some n, r2)" and "0 < n"
    and "s_inv s = w_inv w" and "s_sem s = w_sem w" and "s_mgr s = M_Idle"
  shows "\<exists>m' w' outs t. restock_item (m, w) = Inr ((m', w'), outs) \<and> tranclp (sys_step sg) s t \<and>
    s_inv t = w_inv w' \<and> s_sem t = w_sem w' \<and> s_mgr t = M_Idle \<and> s_shop t = s_shop s \<and>
    s_sold t = s_sold s \<and>
    s_restocked t = (if last outs = Restocked n name
      then (s_restocked s)(cstr name := s_restocked s (cstr name) + n) else s_restocked s)"
proof -
  obtain m' shown where run: "restock_item (m, w) =
    Inr ((m', w\<lparr>w_inv := updated (add_quantity n) (cstr name) (w_inv w)\<rparr>),
         shown @ [if inv_map (w_inv w) (cstr name) \<noteq> None then Restocked n name else Mgr_Item_Not_Found])"
    by (rule restock_run [OF assms(1-6)])
  from assms(1) show ?thesis
  proof (cases rule: store.find_cases [of _ "cstr name"])
    case 1
    with assms(2,7-9) have "tranclp (sys_step sg) s s" by (intro mgr_run_missing) auto
    with 1 run assms(7-9) show ?thesis by (auto simp: updated_def intro!: exI [of _ s])
  next
    case (2 i)
    let ?t = "s\<lparr>s_inv := write_quantity i (wrap32 (it_quantity (get_item (s_inv s) i) + n)) (s_inv s),
       s_restocked := (s_restocked s)(cstr name := s_restocked s (cstr name) + n)\<rparr>"
    have "tranclp (sys_step sg) s ?t" using mgr_run [of s "cstr name" i sg n] 2 assms(2,7-9) by simp
    moreover have "updated (add_quantity n) (cstr name) (w_inv w) = s_inv ?t"
      using 2 assms(7) by (simp add: updated_def add_quantity_def write_quantity_def)
    ultimately show ?thesis using 2 run assms(8,9) by (auto intro!: exI [of _ ?t])
  qed
qed

theorem restock_item_is_run_witness:
  "\<exists>t. tranclp (sys_step False) (init_sys shirts) t \<and> s_restocked t ''Tshirt'' = 25 \<and> s_mgr t = M_Idle"
proof -
  let ?m = "clerk ''Tshirt 25'' [Sem_Done, Sem_Done, Sem_Done, Sem_Done]"
  have m: "mg_semops ?m = Sem_Done # Sem_Done # Sem_Done # Sem_Done # []"
    "scan_s 49 (mg_stdin ?m) = (Some ''Tshirt'', '' 25'')" "scan_d '' 25'' = (Some 25, [])"
    "(0::int) < 25"
    by (simp add: clerk_def, code_simp, code_simp, simp)
  have w: "wf_inventory (w_inv (shirt_world 1000))" "0 < w_sem (shirt_world 1000)"
    "s_inv (init_sys shirts) = w_inv (shirt_world 1000)" "s_sem (init_sys shirts) = w_sem (shirt_world 1000)"
    "s_mgr (init_sys shirts) = M_Idle"
    by (simp_all add: shirt_world_def wf_shirts init_sys_def)
  obtain m' shown where "restock_item (?m, shirt_world 1000) =
    Inr ((m',
          (shirt_world 1000)\<lparr>w_inv := updated (add_quantity 25) (cstr ''Tshirt'') (w_inv (shirt_world 1000))\<rparr>),
         shown @ [if inv_map (w_inv (shirt_world 1000)) (cstr ''Tshirt'') \<noteq> None then Restocked 25 ''Tshirt''
                  else Mgr_Item_Not_Found])"
    by (rule restock_run [OF w(1,2) m])
  moreover have "inv_map (w_inv (shirt_world 1000)) (cstr ''Tshirt'') \<noteq> None"
    using stock_shirts by (auto simp: stock_def shirt_world_def)
  ultimately show ?thesis
    using restock_item_is_run [OF w(1,2) m w(3-5), of False] by (auto simp: init_sys_def)
qed

text \<open>And so is a change of a price, which counts as nothing sold and nothing restocked.\<close>

lemma mgr_reprice_run:
  fixes p :: 'd and s :: "'d sys"
  assumes "s_mgr s = M_Idle" and "0 < s_sem s"
  shows "find_item (s_inv s) name = Inr (Some i) \<Longrightarrow>
      tranclp (sys_step sg) s (s\<lparr>s_inv := write_price i p (s_inv s)\<rparr>)"
    and "find_item (s_inv s) name = Inr None \<Longrightarrow> tranclp (sys_step sg) s s"
proof -
  let ?s1 = "s\<lparr>s_mgr := M_Reprice name p, s_sem := s_sem s - 1\<rparr>"
  have a1: "sys_step sg s ?s1" using assms by (intro mgr_lock) simp_all
  { assume f: "find_item (s_inv s) name = Inr (Some i)"
    let ?s2 = "?s1\<lparr>s_inv := write_price i p (s_inv s), s_mgr := M_Unlock\<rparr>"
    have a2: "sys_step sg ?s1 ?s2" using mgr_reprice [of ?s1 name p i sg] f by simp
    let ?s3 = "?s2\<lparr>s_mgr := M_Idle, s_sem := s_sem ?s2 + 1\<rparr>"
    have a3: "sys_step sg ?s2 ?s3" by (rule mgr_unlock) simp
    have e: "?s3 = s\<lparr>s_inv := write_price i p (s_inv s)\<rparr>" using assms(1) by simp
    show "tranclp (sys_step sg) s (s\<lparr>s_inv := write_price i p (s_inv s)\<rparr>)"
      using three_steps [of "sys_step sg", OF a1 a2 a3] unfolding e . }
  { assume f: "find_item (s_inv s) name = Inr None"
    let ?s2 = "?s1\<lparr>s_mgr := M_Unlock\<rparr>"
    have a2: "sys_step sg ?s1 ?s2" using mgr_reprice_missing [of ?s1 name p sg] f by simp
    let ?s3 = "?s2\<lparr>s_mgr := M_Idle, s_sem := s_sem ?s2 + 1\<rparr>"
    have a3: "sys_step sg ?s2 ?s3" by (rule mgr_unlock) simp
    have e: "?s3 = s" using assms(1) by simp
    show "tranclp (sys_step sg) s s"
      using three_steps [of "sys_step sg", OF a1 a2 a3] unfolding e . }
qed

lemma update_price_is_run:
  assumes "wf_inventory (w_inv w)" and "0 < w_sem w"
    and "mg_semops m = Sem_Done # Sem_Done # Sem_Done # Sem_Done # es"
    and "scan_s 49 (mg_stdin m) = (Some name, r)" and "fp_scan f r = (Some p, r2)"
    and "\<not> fp_le f p (fp_zero f)"
    and "s_inv s = w_inv w" and "s_sem s = w_sem w" and "s_mgr s = M_Idle"
  shows "\<exists>m' w' outs t. update_price f (m, w) = Inr ((m', w'), outs) \<and> tranclp (sys_step sg) s t \<and>
    s_inv t = w_inv w' \<and> s_sem t = w_sem w' \<and> s_mgr t = M_Idle \<and> s_shop t = s_shop s \<and>
    s_sold t = s_sold s \<and> s_restocked t = s_restocked s"
proof -
  obtain m' outs where run: "update_price f (m, w) =
    Inr ((m', w\<lparr>w_inv := updated (it_price_update (\<lambda>_. p)) (cstr name) (w_inv w)\<rparr>), outs)"
    by (rule price_run [OF assms(1-6)])
  note step = mgr_reprice_run(1) [where s = s and name = "cstr name" and sg = sg and p = p]
    mgr_reprice_run(2) [where s = s and name = "cstr name" and sg = sg]
  from assms(1) show ?thesis
  proof (cases rule: store.find_cases [of _ "cstr name"])
    case 1
    with run step(2) assms(2,7-9) show ?thesis by (auto simp: updated_def intro!: exI [of _ s])
  next
    case (2 i)
    with run step(1) assms(2,7-9) show ?thesis
      by (auto simp: updated_def write_price_def intro!: exI [of _ "s\<lparr>s_inv := write_price i p (s_inv s)\<rparr>"])
  qed
qed

section \<open>Nobody waits for ever\<close>

text \<open>A process inside its critical section can go on to its end, whatever the other one does.\<close>

definition shop_can_finish :: "bool \<Rightarrow> 'd sys \<Rightarrow> bool" where
  "shop_can_finish sg s \<longleftrightarrow>
     (\<exists>t. rtranclp (sys_step sg) s t \<and> s_shop t = S_Idle \<and> s_mgr t = s_mgr s \<and> s_sem t = s_sem s + 1)"

definition mgr_can_finish :: "bool \<Rightarrow> 'd sys \<Rightarrow> bool" where
  "mgr_can_finish sg s \<longleftrightarrow>
     (\<exists>t. rtranclp (sys_step sg) s t \<and> s_mgr t = M_Idle \<and> s_shop t = s_shop s \<and> s_sem t = s_sem s + 1)"

lemma can_finish_step:
  "sys_step sg u v \<Longrightarrow> s_mgr v = s_mgr u \<Longrightarrow> s_sem v = s_sem u \<Longrightarrow> shop_can_finish sg v \<Longrightarrow> shop_can_finish sg u"
  "sys_step sg u v \<Longrightarrow> s_shop v = s_shop u \<Longrightarrow> s_sem v = s_sem u \<Longrightarrow> mgr_can_finish sg v \<Longrightarrow> mgr_can_finish sg u"
  unfolding shop_can_finish_def mgr_can_finish_def by (metis converse_rtranclp_into_rtranclp)+

lemma can_finish_unlock:
  "s_shop u = S_Unlock \<Longrightarrow> shop_can_finish sg u" "s_mgr u = M_Unlock \<Longrightarrow> mgr_can_finish sg u"
  unfolding shop_can_finish_def mgr_can_finish_def
  by (rule exI [of _ "u\<lparr>s_shop := S_Idle, s_sem := s_sem u + 1\<rparr>"], simp add: r_into_rtranclp shop_unlock)
     (rule exI [of _ "u\<lparr>s_mgr := M_Idle, s_sem := s_sem u + 1\<rparr>"], simp add: r_into_rtranclp mgr_unlock)

lemma can_finish_write:
  "s_shop u = S_Write i v name n \<Longrightarrow> shop_can_finish sg u"
  "s_mgr u = M_Write i v name n \<Longrightarrow> mgr_can_finish sg u"
  by (rule can_finish_step(1) [OF shop_write], simp_all add: can_finish_unlock)
     (rule can_finish_step(2) [OF mgr_write], simp_all add: can_finish_unlock)

lemma shop_finishes:
  assumes "s_shop s \<noteq> S_Idle" and "wf_inventory (s_inv s)"
  shows "shop_can_finish sg s"
proof (cases "s_shop s")
  case (S_Locked name n)
  from assms(2) show ?thesis
  proof (cases rule: store.find_cases [of _ name])
    case 1
    show ?thesis
      by (rule can_finish_step(1) [OF shop_missing [OF S_Locked 1(1)]]) (simp_all add: can_finish_unlock)
  next
    case (2 i)
    show ?thesis
    proof (cases "n \<le> it_quantity (get_item (s_inv s) i)")
      case True
      show ?thesis
        by (rule can_finish_step(1) [OF shop_read [OF S_Locked 2(1) True]]) (simp_all add: can_finish_write)
    next
      case False
      then have less: "it_quantity (get_item (s_inv s) i) < n" by simp
      show ?thesis
        by (rule can_finish_step(1) [OF shop_reject [OF S_Locked 2(1) less]]) (simp_all add: can_finish_unlock)
    qed
  qed
qed (use assms(1) in \<open>auto intro: can_finish_unlock can_finish_write\<close>)

lemma mgr_finishes:
  assumes "s_mgr s \<noteq> M_Idle" and "wf_inventory (s_inv s)"
  shows "mgr_can_finish sg s"
proof (cases "s_mgr s")
  case (M_Locked name n)
  from assms(2) show ?thesis
  proof (cases rule: store.find_cases [of _ name])
    case 1
    show ?thesis
      by (rule can_finish_step(2) [OF mgr_missing [OF M_Locked 1(1)]]) (simp_all add: can_finish_unlock)
  next
    case (2 i)
    show ?thesis
      by (rule can_finish_step(2) [OF mgr_read [OF M_Locked 2(1)]]) (simp_all add: can_finish_write)
  qed
next
  case (M_Reprice name p)
  from assms(2) show ?thesis
  proof (cases rule: store.find_cases [of _ name])
    case 1
    show ?thesis
      by (rule can_finish_step(2) [OF mgr_reprice_missing [OF M_Reprice 1(1)]]) (simp_all add: can_finish_unlock)
  next
    case (2 i)
    show ?thesis
      by (rule can_finish_step(2) [OF mgr_reprice [OF M_Reprice 2(1)]]) (simp_all add: can_finish_unlock)
  qed
next
  case M_Look
  show ?thesis
    by (rule can_finish_step(2) [OF mgr_look [OF M_Look]]) (simp_all add: can_finish_unlock)
qed (use assms(1) in \<open>auto intro: can_finish_unlock can_finish_write\<close>)

text \<open>C28: Without interrupted semaphore calls the two processes never block each other for ever:
  from every state they can reach, they can go on to a state in which both are idle and the
  semaphore is free.\<close>

theorem both_can_finish:
  assumes "sys_reach False iv s" and "wf_inventory iv"
  shows "\<exists>t. rtranclp (sys_step False) s t \<and> s_shop t = S_Idle \<and> s_mgr t = M_Idle \<and> s_sem t = 1"
proof -
  have inv: "sys_inv iv s" by (rule sys_reach_inv [OF assms])
  then have wf: "wf_inventory (s_inv s)" by (simp add: sys_inv_def)
  consider "s_shop s \<noteq> S_Idle" "s_mgr s = M_Idle" "s_sem s = 0"
    | "s_mgr s \<noteq> M_Idle" "s_shop s = S_Idle" "s_sem s = 0"
    | "s_shop s = S_Idle" "s_mgr s = M_Idle" "s_sem s = 1"
    using inv by (auto simp: sys_inv_def shop_in_def mgr_in_def split: if_splits)
  then show ?thesis
  proof cases
    case 1
    with shop_finishes [OF 1(1) wf, of False] show ?thesis by (auto simp: shop_can_finish_def)
  next
    case 2
    with mgr_finishes [OF 2(1) wf, of False] show ?thesis by (auto simp: mgr_can_finish_def)
  qed auto
qed

theorem both_can_finish_witness:
  "\<exists>t. rtranclp (sys_step False) ((init_sys shirts)\<lparr>s_shop := S_Locked ''Tshirt'' 8, s_sem := 0\<rparr>) t \<and>
     s_shop t = S_Idle \<and> s_mgr t = M_Idle \<and> s_sem t = 1"
proof (rule both_can_finish [OF _ wf_shirts])
  show "sys_reach False shirts ((init_sys shirts)\<lparr>s_shop := S_Locked ''Tshirt'' 8, s_sem := 0\<rparr>)"
    using sys_reach.step [OF sys_reach.start shop_lock [where s = "init_sys shirts" and name = "''Tshirt''" and n = 8]]
    by (simp add: init_sys_def)
qed

section \<open>A signal loses an update\<close>

text \<open>C37: With the signal that makes the manager's \<^verbatim>\<open>sem_lock\<close> return without the
  semaphore, an update is lost: for any item in stock there is an interleaving that ends with
  both processes idle, where the restocked quantity is missing from the stock and the
  semaphore stands at 2, so that until the manager has exited the shop and another manager can
  both be in their critical sections.\<close>

theorem signal_loses_update:
  assumes "wf_inventory iv" and "stock iv name = Some h" and "n \<le> h"
  shows "\<exists>s. sys_reach True iv s \<and> s_shop s = S_Idle \<and> s_mgr s = M_Idle \<and> s_sem s = 2 \<and>
    s_sold s name = n \<and> s_restocked s name = r \<and> stock (s_inv s) name = Some (wrap32 (h - n))"
proof -
  obtain i where f: "find_item iv name = Inr (Some i)" and q: "it_quantity (get_item iv i) = h"
    using assms(1,2) by (cases rule: store.find_cases [of iv name]) (auto simp: stock_def)
  define s0 where "s0 = init_sys iv"
  define s1 where "s1 = s0\<lparr>s_shop := S_Locked name n, s_sem := 0\<rparr>"
  define s2 where "s2 = s1\<lparr>s_shop := S_Write i (wrap32 (h - n)) name n\<rparr>"
  define s3 where "s3 = s2\<lparr>s_mgr := M_Locked name r\<rparr>"
  define s4 where "s4 = s3\<lparr>s_mgr := M_Write i (wrap32 (h + r)) name r\<rparr>"
  define s5 where "s5 = s4\<lparr>s_inv := write_quantity i (wrap32 (h + r)) iv, s_mgr := M_Unlock,
                          s_restocked := (\<lambda>_. 0)(name := r)\<rparr>"
  define s6 where "s6 = s5\<lparr>s_mgr := M_Idle, s_sem := 1\<rparr>"
  define s7 where "s7 = s6\<lparr>s_inv := write_quantity i (wrap32 (h - n)) (s_inv s5),
                          s_shop := S_Unlock, s_sold := (\<lambda>_. 0)(name := n)\<rparr>"
  define s8 where "s8 = s7\<lparr>s_shop := S_Idle, s_sem := 2\<rparr>"
  note d = s0_def s1_def s2_def s3_def s4_def s5_def s6_def s7_def s8_def init_sys_def
  have "sys_reach True iv s0" unfolding s0_def by (rule sys_reach.start)
  moreover have "sys_step True s0 s1" using shop_lock [of s0 True name n] by (simp add: d)
  moreover have "sys_step True s1 s2" using shop_read [of s1 name n i True] f q assms(3) by (simp add: d)
  moreover have "sys_step True s2 s3" using mgr_lock_interrupted [of True s2 "M_Locked name r"] by (simp add: d)
  moreover have "sys_step True s3 s4" using mgr_read [of s3 name r i True] f q by (simp add: d)
  moreover have "sys_step True s4 s5" using mgr_write [of s4 i "wrap32 (h + r)" name r True] by (simp add: d)
  moreover have "sys_step True s5 s6" using mgr_unlock [of s5 True] by (simp add: d)
  moreover have "sys_step True s6 s7" using shop_write [of s6 i "wrap32 (h - n)" name n True] by (simp add: d)
  moreover have "sys_step True s7 s8" using shop_unlock [of s7 True] by (simp add: d)
  ultimately have "sys_reach True iv s8" by (meson sys_reach.step)
  moreover have "stock (s_inv s8) name = Some (wrap32 (h - n))"
  proof -
    let ?iv = "write_quantity i (wrap32 (h + r)) iv"
    have "write_quantity i (wrap32 (h - n)) ?iv = write_quantity i (wrap32 (h - n)) iv"
      using find_item_place(2) [OF assms(1) f]
      by (simp add: write_quantity_def put_item_def get_item_def set_quantity_def)
    then have "stock (write_quantity i (wrap32 (h - n)) ?iv) name = Some (wrap32 (h - n))"
      by (simp add: write_quantity_stock [OF assms(1) f])
    then show ?thesis by (simp add: d)
  qed
  ultimately show ?thesis by (intro exI [of _ s8]) (simp add: d)
qed

theorem signal_loses_update_witness:
  "\<exists>s. sys_reach True shirts s \<and> s_sem s = 2 \<and> s_sold s ''Tshirt'' = 8 \<and>
     s_restocked s ''Tshirt'' = 5 \<and> stock (s_inv s) ''Tshirt'' = Some 42"
proof -
  have "(8 :: int) \<le> 50" by simp
  from signal_loses_update [OF wf_shirts stock_shirts this, of 5] show ?thesis
    by (auto simp: wrap32_def)
qed

section \<open>Two customers\<close>

text \<open>C38: Replies are not addressed: a customer who checks out one line while another
  customer's order is already queued gets the reply to that order as its own. It is told success
  or failure by the other order, the stock changes by the other order, and its own order is still
  in the queue after its checkout has ended.\<close>

theorem reply_of_another_customer:
  assumes "wf_inventory (w_inv w)" and "0 < w_sem w" and "\<not> q_removed (w_queue w)"
    and "q_msgs (w_queue w) = [Order_Msg m1]" and "om_mtype m1 = MSG_ORDER"
    and "208 \<le> q_limit (w_queue w)" and "ct_item_count ct = 1" and "ct_items ct \<noteq> []"
  shows "\<exists>b outs w'. checkout_loop f (shop_iteration f) pid ct 0 w = Inr (b, outs, w') \<and>
    (b, stock (w_inv w')) = order_spec (stock (w_inv w)) (cstr (om_item_name m1)) (om_quantity m1) \<and>
    Order_Msg (mk_order f pid (ct_items ct ! 0)) \<in> set (q_msgs (w_queue w'))"
proof -
  let ?q = "w_queue w" and ?m = "mk_order f pid (ct_items ct ! 0)"
  let ?q1 = "?q\<lparr>q_msgs := [Order_Msg m1, Order_Msg ?m]\<rparr>" and ?q2 = "?q\<lparr>q_msgs := [Order_Msg ?m]\<rparr>"
  let ?notes = "order_notes (w_inv w) (cstr (om_item_name m1)) (om_quantity m1)"
  have snd: "msgsnd (Order_Msg ?m) ?q = IPC_Ok ?q1"
    using assms(3,4,6) by (subst msgsnd_room) (simp_all add: q_used_def)
  have rcv: "msgrcv MSG_ORDER ?q1 = IPC_Ok (Order_Msg m1, ?q2)"
    using assms(3,5) by (simp add: msgrcv_def)
  have "wf_inventory (w_inv (w\<lparr>w_queue := ?q2\<rparr>))" "0 < w_sem (w\<lparr>w_queue := ?q2\<rparr>)"
    "\<not> q_removed (w_queue (w\<lparr>w_queue := ?q2\<rparr>))"
    "q_used (w_queue (w\<lparr>w_queue := ?q2\<rparr>)) + 64 + 72 \<le> q_limit (w_queue (w\<lparr>w_queue := ?q2\<rparr>))"
    using assms(1-3,6) by (simp_all add: q_used_def)
  then obtain m' w' where p: "process_order f m1 (w\<lparr>w_queue := ?q2\<rparr>) = Inr (m', w')"
    and q': "w_queue w' = ?q\<lparr>q_msgs := Order_Msg ?m # ?notes @ [Order_Msg m']\<rparr>"
    and ty: "om_mtype m' = MSG_RESPONSE"
    by (rule process_order_reply [of "w\<lparr>w_queue := ?q2\<rparr>" f m1]) auto
  have it: "shop_iteration f (w\<lparr>w_queue := ?q1\<rparr>) = Inr w'"
    using assms(1) by (simp add: shop_iteration_wf rcv p)
  have n: "\<forall>x \<in> set (Order_Msg ?m # ?notes). msg_type x \<noteq> MSG_RESPONSE"
    by (auto simp: shop_consts mk_order_def dest!: order_notes_types)
  have rsp: "msgrcv MSG_RESPONSE (w_queue w') = IPC_Ok (Order_Msg m', ?q\<lparr>q_msgs := Order_Msg ?m # ?notes\<rparr>)"
    using msgrcv_last [of "w_queue w'" "Order_Msg ?m # ?notes" "Order_Msg m'" MSG_RESPONSE] n assms(3) q' ty
    by simp
  have w: "wf_inventory (w_inv (w\<lparr>w_queue := ?q2\<rparr>))" using assms(1) by simp
  note spec = process_order_stock [OF w p] and st = process_order_status [OF w p]
  show ?thesis
  proof (cases "om_status m' = 0")
    case True
    then show ?thesis
      by (subst checkout_loop.simps) (use snd it rsp spec assms(7,8) in auto)
  next
    case False
    with st have s1: "om_status m' = 1" by simp
    have "\<not> int (Suc 0) < ct_item_count ct" using assms(7) by simp
    then have last: "checkout_loop f serve pid ct (Suc 0) v = Inr (True, [], v)" for serve v
      by (subst checkout_loop.simps) simp
    show ?thesis
      by (subst checkout_loop.simps) (use snd it rsp spec assms(7,8) s1 in \<open>auto simp: last\<close>)
  qed
qed

definition shirt_race :: "int world" where
  "shirt_race = (shirt_world 1000)\<lparr>w_queue :=
     \<lparr>q_msgs = [Order_Msg (shirt_order 60)], q_limit = 1000, q_removed = False\<rparr>\<rparr>"

theorem reply_of_another_customer_witness:
  "\<exists>outs w'. checkout_loop cents (shop_iteration cents) 9 (shirt_cart [2]) 0 shirt_race =
     Inr (False, outs, w') \<and> stock (w_inv w') ''Tshirt'' = Some 50"
proof -
  have c: "ct_item_count (shirt_cart [2]) = 1" "ct_items (shirt_cart [2]) \<noteq> []" by code_simp+
  have h: "wf_inventory (w_inv shirt_race)" "0 < w_sem shirt_race" "\<not> q_removed (w_queue shirt_race)"
    "q_msgs (w_queue shirt_race) = [Order_Msg (shirt_order 60)]"
    "om_mtype (shirt_order 60) = MSG_ORDER" "208 \<le> q_limit (w_queue shirt_race)"
    by (simp_all add: shirt_race_def shirt_world_def wf_shirts shirt_order_def)
  from reply_of_another_customer [OF h c, of cents 9] show ?thesis
    by (auto simp: order_spec_def stock_shirts shirt_race_def shirt_world_def shirt_order_def)
qed

section \<open>The shop among its clients\<close>

text \<open>
  What the other programs do to the shared objects while the shop sleeps, in their own
  definitions: a customer in its checkout sends the order of a cart line or takes a reply, the
  manager makes a turn of its menu, its thread looks for notifications. A call that cannot go on
  (no room, no message, a menu that spins at the end of its input) has changed nothing. Any
  number of customers and managers can take part, in any order.
\<close>

datatype 'd client =
    Sends_Order int "'d cart_item" | Takes_Reply | Manager_Turn manager | Manager_Polls nat

fun client_act :: "'d fp \<Rightarrow> 'd client \<Rightarrow> 'd world \<Rightarrow> 'd world" where
  "client_act f (Sends_Order pid ci) w =
     (case send_order (\<lambda>_. Inl Blocked) (mk_order f pid ci) w of Inr (_, w') \<Rightarrow> w' | Inl _ \<Rightarrow> w)"
| "client_act f Takes_Reply w =
     (case msgrcv MSG_RESPONSE (w_queue w) of IPC_Ok (_, q) \<Rightarrow> w\<lparr>w_queue := q\<rparr> | _ \<Rightarrow> w)"
| "client_act f (Manager_Turn m) w =
     (case manager_iteration f (m, w) of Inr ((_, w'), _) \<Rightarrow> w' | Inl _ \<Rightarrow> w)"
| "client_act f (Manager_Polls n) w =
     (case notification_handler n (w_queue w) of Inr (q, _) \<Rightarrow> w\<lparr>w_queue := q\<rparr> | Inl _ \<Rightarrow> w)"

text \<open>
  A customer sends lines of a well-formed cart, which its own loop keeps so; the manager's
  semaphore calls are not interrupted.
\<close>

fun client_ok :: "'d client \<Rightarrow> bool" where
  "client_ok (Sends_Order pid ci) \<longleftrightarrow> line_ok ci"
| "client_ok (Manager_Turn m) \<longleftrightarrow> calm m"
| "client_ok _ \<longleftrightarrow> True"

fun supplies :: "'d client \<Rightarrow> int" where
  "supplies (Manager_Turn m) = restock_typed (mg_stdin m)"
| "supplies _ = 0"

fun order_bytes :: "'d client \<Rightarrow> nat" where
  "order_bytes (Sends_Order pid ci) = 72"
| "order_bytes _ = 0"

text \<open>
  The turns of the shop, each with the clients' actions before it and whether the signal arrives
  during it; what the manager restocks in them, and the bytes they can add to the queue.
\<close>

type_synonym 'd turn = "'d client list \<times> bool"

definition clients :: "'d fp \<Rightarrow> 'd turn list \<Rightarrow> (('d world \<Rightarrow> 'd world) \<times> bool) list" where
  "clients f ts = map (\<lambda>(cs, sig). (fold (client_act f) cs, sig)) ts"

definition turns_ok :: "'d turn list \<Rightarrow> bool" where
  "turns_ok ts \<longleftrightarrow> (\<forall>(cs, sig) \<in> set ts. \<forall>c \<in> set cs. client_ok c)"

definition supplied :: "'d turn list \<Rightarrow> int" where
  "supplied ts = (\<Sum>(cs, sig)\<leftarrow>ts. \<Sum>c\<leftarrow>cs. supplies c)"

definition queue_demand :: "'d turn list \<Rightarrow> nat" where
  "queue_demand ts = (\<Sum>(cs, sig)\<leftarrow>ts. 64 + (\<Sum>c\<leftarrow>cs. order_bytes c))"

text \<open>The shop's invariant, with every stock at most \<open>n\<close> above the one it was.\<close>

definition shop_within :: "(string \<Rightarrow> int option) \<Rightarrow> int \<Rightarrow> 'd world \<Rightarrow> bool" where
  "shop_within st n w \<longleftrightarrow> shop_ok w \<and>
     (\<forall>k q. stock (w_inv w) k = Some q \<longrightarrow> (\<exists>h. st k = Some h \<and> q \<le> h + n))"

lemma shop_within_self: "shop_ok w \<Longrightarrow> shop_within (stock (w_inv w)) 0 w"
  by (simp add: shop_within_def)

lemma shop_within_queue:
  "shop_within st n w \<Longrightarrow> \<forall>m \<in> set (q_msgs q). msg_ok m \<Longrightarrow> shop_within st n (w\<lparr>w_queue := q\<rparr>)"
  by (simp add: shop_within_def shop_ok_def)

lemma supplies_nonneg: "0 \<le> supplies c"
  by (cases c) (simp_all add: restock_typed_nonneg)

lemma turn_effect_within:
  assumes "shop_within st S w" and "turn_effect n w w'" and "0 \<le> n"
    and "\<forall>k h. st k = Some h \<longrightarrow> h + (S + n) \<le> 2147483647"
  shows "shop_within st (S + n) w'"
proof -
  have nn: "0 \<le> q" "\<exists>h. st k = Some h \<and> q \<le> h + S" if "stock (w_inv w) k = Some q" for k q
    using assms(1) that by (auto simp: shop_within_def shop_ok_def)
  have "0 \<le> q \<and> (\<exists>h. st k = Some h \<and> q \<le> h + (S + n))" if q: "stock (w_inv w') k = Some q" for k q
  proof (cases "stock (w_inv w) k = Some q")
    case True
    with nn [OF True] assms(3) show ?thesis by fastforce
  next
    case False
    with q assms(2) obtain h0 where h0: "stock (w_inv w) k = Some h0" "q = wrap32 (h0 + n)"
      by (auto simp: turn_effect_def split: if_splits)
    then obtain h where h: "st k = Some h" "h0 \<le> h + S" using nn(2) by blast
    with assms(4) have "h0 + n \<le> 2147483647" by fastforce
    then have "q = h0 + n" using nn(1) [OF h0(1)] assms(3) h0(2) by (simp add: wrap32_nonneg_small)
    with h nn(1) [OF h0(1)] assms(3) show ?thesis by auto
  qed
  with assms(1,2) show ?thesis by (auto simp: shop_within_def shop_ok_def turn_effect_def)
qed

lemma shop_ok_safe: "shop_ok w \<Longrightarrow> world_safe w"
  by (simp add: shop_ok_def world_safe_def)

lemma client_act_within:
  assumes "shop_within st S w" and "client_ok c"
    and "\<forall>k h. st k = Some h \<longrightarrow> h + (S + supplies c) \<le> 2147483647"
  shows "shop_within st (S + supplies c) (client_act f c w)"
proof (cases c)
  case (Sends_Order pid ci)
  then have "msg_ok (Order_Msg (mk_order f pid ci))"
    using assms(2) by (simp add: mk_order_def line_ok_def)
  with Sends_Order assms(1) show ?thesis
    by (auto simp: send_order_def shop_within_def shop_ok_def split: ipc_res.splits dest!: msgsnd_Ok_fields)
next
  case Takes_Reply
  have ws: "world_safe w" using assms(1) by (simp add: shop_within_def shop_ok_safe)
  have "\<forall>m \<in> set (q_msgs q). msg_ok m" if "msgrcv MSG_RESPONSE (w_queue w) = IPC_Ok (x, q)" for x q
    using msgrcv_safe(1) [OF ws that] by (simp add: world_safe_def)
  with Takes_Reply assms(1) show ?thesis
    by (auto split: ipc_res.splits intro!: shop_within_queue)
next
  case (Manager_Turn m)
  have w: "wf_inventory (w_inv w)" "0 < w_sem w" using assms(1) by (simp_all add: shop_within_def shop_ok_def)
  have keep: "shop_within st (S + supplies c) w"
    using turn_effect_within [OF assms(1) _ supplies_nonneg assms(3)] w(1) by simp
  have "calm m" using assms(2) Manager_Turn by simp
  from manager_turn [OF w this, of f] show ?thesis
  proof (elim disjE exE conjE)
    fix s' outs assume r: "manager_iteration f (m, w) = Inr (s', outs)"
      and e: "turn_effect (restock_typed (mg_stdin m)) w (snd s')"
    have "shop_within st (S + supplies c) (snd s')"
      using turn_effect_within [OF assms(1) e restock_typed_nonneg] assms(3) Manager_Turn by simp
    with r Manager_Turn show ?thesis by (cases s') simp
  qed (use keep Manager_Turn in simp)
next
  case (Manager_Polls n)
  have "world_safe w" using assms(1) by (simp add: shop_within_def shop_ok_safe)
  from notification_handler_safe [OF this, of n] Manager_Polls assms(1) show ?thesis
    by (auto split: sum.splits intro!: shop_within_queue simp: world_safe_def)
qed

lemma notification_poll_room:
  "notification_poll q = Inr (q', outs) \<Longrightarrow> q_used q' \<le> q_used q \<and> q_limit q' = q_limit q"
  by (auto simp: notification_poll_def split: ipc_res.splits msg.splits prod.splits dest!: msgrcv_Ok_fields)

lemma notification_handler_room:
  "notification_handler n q = Inr (q', outs) \<Longrightarrow> q_used q' \<le> q_used q \<and> q_limit q' = q_limit q"
  by (induction n arbitrary: q outs) (fastforce simp: c_bind_Inr_iff dest: notification_poll_room)+

lemma client_act_room:
  assumes "shop_ok w" and "client_ok c"
  shows "q_used (w_queue (client_act f c w)) \<le> q_used (w_queue w) + order_bytes c \<and>
    q_limit (w_queue (client_act f c w)) = q_limit (w_queue w)"
proof (cases c)
  case (Manager_Turn m)
  have w: "wf_inventory (w_inv w)" "0 < w_sem w" "calm m"
    using assms Manager_Turn by (simp_all add: shop_ok_def)
  from manager_turn [OF w, of f] Manager_Turn show ?thesis by (auto simp: turn_effect_def)
next
  case (Manager_Polls n)
  then show ?thesis by (auto split: sum.splits dest: notification_handler_room)
qed (auto simp: send_order_def split: ipc_res.splits dest: msgsnd_Ok_fields msgrcv_Ok_fields)

text \<open>All the actions before a turn, and the turn.\<close>

lemma clients_within:
  "shop_within st S w \<Longrightarrow> \<forall>c \<in> set cs. client_ok c \<Longrightarrow>
   \<forall>k h. st k = Some h \<longrightarrow> h + (S + (\<Sum>c\<leftarrow>cs. supplies c)) \<le> 2147483647 \<Longrightarrow>
   shop_within st (S + (\<Sum>c\<leftarrow>cs. supplies c)) (fold (client_act f) cs w) \<and>
   q_used (w_queue (fold (client_act f) cs w)) \<le> q_used (w_queue w) + (\<Sum>c\<leftarrow>cs. order_bytes c) \<and>
   q_limit (w_queue (fold (client_act f) cs w)) = q_limit (w_queue w)"
proof (induction cs arbitrary: w S)
  case (Cons c cs)
  have p: "0 \<le> (\<Sum>c\<leftarrow>cs. supplies c)" by (intro sum_list_nonneg) (auto simp: supplies_nonneg)
  have b: "\<forall>k h. st k = Some h \<longrightarrow> h + (S + supplies c) \<le> 2147483647"
    using Cons.prems(3) p by fastforce
  have w1: "shop_within st (S + supplies c) (client_act f c w)"
    using Cons.prems(1,2) b by (intro client_act_within) simp_all
  have "shop_ok w" using Cons.prems(1) by (simp add: shop_within_def)
  with client_act_room [of w c f] Cons.IH [OF w1] Cons.prems(2,3) show ?case
    by (simp add: add.assoc)
qed simp

lemma shop_iteration_within:
  assumes "shop_within st S w" and "shop_iteration f w = Inr w'"
  shows "shop_within st S w'"
proof -
  have ok: "shop_ok w" using assms(1) by (simp add: shop_within_def)
  have "\<exists>h. st k = Some h \<and> q \<le> h + S" if q: "stock (w_inv w') k = Some q" for k q
  proof -
    obtain h0 where "stock (w_inv w) k = Some h0" "q \<le> h0"
      by (rule shop_iteration_le [OF ok assms(2) q])
    with assms(1) show ?thesis by (fastforce simp: shop_within_def)
  qed
  with shop_iteration_ok [OF ok assms(2)] show ?thesis by (simp add: shop_within_def)
qed

lemma shop_loop_within:
  "shop_within st S w \<Longrightarrow> turns_ok ts \<Longrightarrow>
   \<forall>k h. st k = Some h \<longrightarrow> h + (S + supplied ts) \<le> 2147483647 \<Longrightarrow>
   (case shop_loop f run (clients f ts) w of
      Inr (running, w') \<Rightarrow> shop_within st (S + supplied ts) w' \<and> (running \<longleftrightarrow> run \<and> True \<notin> snd ` set ts)
    | Inl e \<Rightarrow> e = Blocked \<or> e = Exit_Failure \<and> True \<in> snd ` set ts) \<and>
   (q_used (w_queue w) + queue_demand ts \<le> q_limit (w_queue w) \<longrightarrow>
      (\<exists>r. shop_loop f run (clients f ts) w = Inr r))"
proof (induction ts arbitrary: w S run)
  case Nil
  then show ?case by (cases run) (auto simp: clients_def supplied_def)
next
  case (Cons t ts)
  obtain cs sig where t: "t = (cs, sig)" by fastforce
  let ?d = "\<Sum>c\<leftarrow>cs. supplies c" and ?w1 = "fold (client_act f) cs w"
  have sp: "supplied (t # ts) = ?d + supplied ts" by (simp add: supplied_def t)
  have nn: "0 \<le> supplied ts" "0 \<le> ?d"
    by (auto simp: supplied_def supplies_nonneg intro!: sum_list_nonneg)
  have up: "shop_within st (S + supplied (t # ts)) v" if "shop_within st S v" for v
    using that nn unfolding sp shop_within_def by fastforce
  have b: "\<forall>k h. st k = Some h \<longrightarrow> h + (S + ?d) \<le> 2147483647"
    using Cons.prems(3) nn unfolding sp by fastforce
  have w1: "shop_within st (S + ?d) ?w1"
    and r1: "q_used (w_queue ?w1) \<le> q_used (w_queue w) + (\<Sum>c\<leftarrow>cs. order_bytes c)"
      "q_limit (w_queue ?w1) = q_limit (w_queue w)"
    using clients_within [OF Cons.prems(1) _ b, where f = f] Cons.prems(2) by (auto simp: turns_ok_def t)
  have ok: "shop_ok ?w1" using w1 by (simp add: shop_within_def)
  show ?case
  proof (cases run)
    case False
    with up [OF Cons.prems(1)] show ?thesis by auto
  next
    case True
    have c: "clients f (t # ts) = (fold (client_act f) cs, sig) # clients f ts" by (simp add: clients_def t)
    have room: "\<exists>w2. shop_iteration f ?w1 = Inr w2 \<and> q_used (w_queue w2) \<le> q_used (w_queue ?w1) + 64 \<and>
        q_limit (w_queue w2) = q_limit (w_queue ?w1)"
      if "q_used (w_queue w) + queue_demand (t # ts) \<le> q_limit (w_queue w)"
      using shop_iteration_room [OF ok, of f] r1 that by (auto simp: queue_demand_def t)
    show ?thesis
    proof (cases "shop_iteration f ?w1")
      case (Inl e)
      with shop_iteration_error [OF ok Inl] room True c t show ?thesis by auto
    next
      case (Inr w2)
      have w2: "shop_within st (S + ?d) w2" by (rule shop_iteration_within [OF w1 Inr])
      have "turns_ok ts" "\<forall>k h. st k = Some h \<longrightarrow> h + (S + ?d + supplied ts) \<le> 2147483647"
        using Cons.prems(2,3) by (auto simp: turns_ok_def sp add.assoc)
      note ih = Cons.IH [OF w2 this, where run = "\<not> sig"]
      have "q_used (w_queue w2) + queue_demand ts \<le> q_limit (w_queue w2)"
        if "q_used (w_queue w) + queue_demand (t # ts) \<le> q_limit (w_queue w)"
        using room [OF that] r1 that Inr by (auto simp: queue_demand_def t)
      with ih Inr True c t show ?thesis by (auto simp: sp [unfolded t] add.assoc split: sum.splits)
    qed
  qed
qed

text \<open>C4: The shop's loop among its clients: any number of customers that send the lines of their carts
  and take replies, and managers that display, restock and reprice without interrupted semaphore
  calls and read notifications, in any order between the shop's turns. As long as what the
  managers restock does not pass the range of \<^verbatim>\<open>int\<close>, the inventory stays well formed, the
  semaphore is free after each turn, and every stock is between zero and what there was plus what
  was restocked. The loop goes on until the first signal. It can only fail by waiting for room in
  the queue, for ever or until a signal makes it exit; with room for the orders and for a
  notification in each turn it does not fail.\<close>

theorem shop_loop_keeps_stock:
  assumes "shop_ok w" and "turns_ok ts"
    and "\<forall>k h. stock (w_inv w) k = Some h \<longrightarrow> h + supplied ts \<le> 2147483647"
  shows "(case shop_loop f run (clients f ts) w of
      Inr (running, w') \<Rightarrow> wf_inventory (w_inv w') \<and> w_sem w' = 1 \<and>
        (\<forall>k q. stock (w_inv w') k = Some q \<longrightarrow>
           0 \<le> q \<and> (\<exists>h. stock (w_inv w) k = Some h \<and> q \<le> h + supplied ts)) \<and>
        (running \<longleftrightarrow> run \<and> True \<notin> snd ` set ts)
    | Inl e \<Rightarrow> e = Blocked \<or> e = Exit_Failure \<and> True \<in> snd ` set ts) \<and>
    (q_used (w_queue w) + queue_demand ts \<le> q_limit (w_queue w) \<longrightarrow>
      (\<exists>r. shop_loop f run (clients f ts) w = Inr r))"
  using shop_loop_within [OF shop_within_self [OF assms(1)] assms(2), where f = f and run = run] assms(3)
  by (auto simp: shop_within_def shop_ok_def split: sum.splits)

text \<open>
  A customer with an order for 20 pieces, and a manager who adds 25.
\<close>

definition shirt_turns :: "int turn list" where
  "shirt_turns =
     [([Sends_Order 7 (ct_items (shirt_cart [20]) ! 0)], False),
      ([Takes_Reply, Manager_Turn (clerk ''2 Tshirt 25'' [Sem_Done, Sem_Done, Sem_Done, Sem_Done]),
        Manager_Polls 1], False),
      ([], True)]"

lemma shirt_turns: "turns_ok shirt_turns" "supplied shirt_turns = 25" "queue_demand shirt_turns = 264"
  "True \<in> snd ` set shirt_turns"
proof -
  have l: "line_ok (ct_items (shirt_cart [20]) ! 0)" by code_simp
  have r: "restock_typed ''2 Tshirt 25'' = 25" by code_simp
  show "turns_ok shirt_turns" using l by (simp add: turns_ok_def shirt_turns_def calm_def clerk_def)
  show "supplied shirt_turns = 25" using r by (simp add: supplied_def shirt_turns_def clerk_def)
  show "queue_demand shirt_turns = 264" "True \<in> snd ` set shirt_turns"
    by (simp_all add: queue_demand_def shirt_turns_def)
qed

theorem shop_loop_keeps_stock_witness:
  "\<exists>w'. shop_loop cents True (clients cents shirt_turns) shirt_queue_world = Inr (False, w') \<and>
     w_sem w' = 1 \<and> (\<forall>k q. stock (w_inv w') k = Some q \<longrightarrow> 0 \<le> q \<and> q \<le> 75)"
proof -
  have s: "stock (w_inv shirt_queue_world) k = Some h \<Longrightarrow> h = 50" for k h
    by (simp add: shirt_queue_world_def shirt_world_def stock_shirts_cases)
  have b: "\<forall>k h. stock (w_inv shirt_queue_world) k = Some h \<longrightarrow> h + supplied shirt_turns \<le> 2147483647"
    by (auto simp: shirt_turns dest: s)
  have "q_used (w_queue shirt_queue_world) + queue_demand shirt_turns \<le> q_limit (w_queue shirt_queue_world)"
    by (simp add: shirt_queue_world_def shirt_world_def q_used_def shirt_turns)
  with shop_loop_keeps_stock [OF shop_ok_shirt_queue_world shirt_turns(1) b, where f = cents and run = True]
    shirt_turns(4) obtain w' where w': "shop_loop cents True (clients cents shirt_turns) shirt_queue_world = Inr (False, w')"
    "w_sem w' = 1" "\<forall>k q. stock (w_inv w') k = Some q \<longrightarrow>
       0 \<le> q \<and> (\<exists>h. stock (w_inv shirt_queue_world) k = Some h \<and> q \<le> h + supplied shirt_turns)"
    by (auto split: sum.splits)
  have "\<forall>k q. stock (w_inv w') k = Some q \<longrightarrow> 0 \<le> q \<and> q \<le> 75"
    using w'(3) by (fastforce simp: shirt_turns dest: s)
  with w'(1,2) show ?thesis by blast
qed




section \<open>Clients and the life of the shop\<close>

lemma world_at_cleanup:
  "ipc_find (get_key ftok (CHR ''A'')) (ipc_shm (shop_cleanup ftok k)) = Inl Exit_Failure"
  by (simp add: ipc_find_def shop_cleanup_def)

lemma world_eta: "\<lparr>w_inv = w_inv w, w_queue = w_queue w, w_sem = w_sem w\<rparr> = w"
  by simp

text \<open>While the shop is in its loop, a customer and a manager started in the same directory work
  on its objects as it left them; once it has returned from \<^verbatim>\<open>main\<close>, both exit at
  once.\<close>

theorem clients_attach:
  assumes "shop_main f ftok file early turns k = Inr (running, k')"
  shows "customer_main f ftok serve acts stdin pid k' =
      (if running then customer_loop f serve acts \<lparr>cu_cart = zero_cart f, cu_stdin = stdin, cu_pid = pid\<rparr>
         (world_at ftok k') else Inl Exit_Failure)"
    and "manager_main f ftok True polls m k' =
      (if running then manager_loop f polls (m, world_at ftok k') else Inl Exit_Failure)"
proof -
  obtain w where w: "k' = (if running then put_world ftok w k else shop_cleanup ftok k)"
    using assms by (cases rule: shop_main_init [of f ftok "file" early turns k, case_names failed made])
      (auto simp: c_bind_Inr_iff split: prod.splits)
  show "customer_main f ftok serve acts stdin pid k' =
      (if running then customer_loop f serve acts \<lparr>cu_cart = zero_cart f, cu_stdin = stdin, cu_pid = pid\<rparr>
         (world_at ftok k') else Inl Exit_Failure)"
    by (simp add: w customer_main_def cust_init_shared_memory_def cust_init_message_queue_def world_at_cleanup)
      (simp add: ipc_find_def put_world_def world_eta)
  show "manager_main f ftok True polls m k' =
      (if running then manager_loop f polls (m, world_at ftok k') else Inl Exit_Failure)"
    by (simp add: w manager_main_def mgr_init_shared_memory_def mgr_init_semaphore_def
        mgr_init_message_queue_def world_at_cleanup)
      (simp add: ipc_find_def put_world_def Let_def world_eta)
qed

end
