(* ===== verification/Shell_Commands.thy ===== *)
theory Shell_Commands
  imports Cstdio
begin

text \<open>
  \<^verbatim>\<open>LQ_SHELL/commands.c\<close>: the commands the shell has built in. What they work on is a
  record: the working directory, the files and the environment. How the kernel finds the file of a
  path is an argument \<open>canon\<close> (the working directory and the path give the file's own name),
  so two paths may lead to one file. Output is a list of lines on the two streams.
\<close>

section \<open>The world\<close>

datatype node = File string | Dir

type_synonym fs = "string \<Rightarrow> node option"
type_synonym canon = "string \<Rightarrow> string \<Rightarrow> string"

record shell =
  sh_cwd :: string
  sh_fs :: fs
  sh_env :: "(string \<times> string) list"

datatype sh_out = Out string | Err string

definition CMD_PATH_MAX :: nat where "CMD_PATH_MAX = 2048"

section \<open>pwd, echo, environment, cd\<close>

text \<open>\<^verbatim>\<open>getcwd\<close> into 1024 bytes.\<close>

definition pwd_command :: "shell \<Rightarrow> sh_out list" where
  "pwd_command sh = (if length (sh_cwd sh) < 1024 then [Out (sh_cwd sh)] else [Err ''getcwd''])"

definition remove_quotes :: "string \<Rightarrow> string" where
  "remove_quotes str =
     (if length str > 1 \<and> (hd str = CHR 0x22 \<and> last str = CHR 0x22 \<or> hd str = CHR 0x27 \<and> last str = CHR 0x27)
      then take (length str - 2) (drop 1 str) else str)"

text \<open>The loop stops at the first NULL; \<open>args\<close> are the strings before it.\<close>

definition echo_command :: "string list \<Rightarrow> sh_out list" where
  "echo_command args = [Out (concat (map (\<lambda>arg. remove_quotes arg @ '' '') (drop 1 args)))]"

definition env_command :: "shell \<Rightarrow> sh_out list" where
  "env_command sh = map (\<lambda>(k, v). Out (k @ ''='' @ v)) (sh_env sh)"

definition cd_command :: "canon \<Rightarrow> string list \<Rightarrow> shell \<Rightarrow> sh_out list \<times> shell" where
  "cd_command canon args sh =
     (if length args > 1 then
        let target = canon (sh_cwd sh) (args ! 1) in
        if sh_fs sh target = Some Dir
        then ([Out (''Directory changed to '' @ args ! 1)], sh\<lparr>sh_cwd := target\<rparr>)
        else ([Err ''cd''], sh)
      else ([Out ''cd: missing argument''], sh))"

section \<open>cp and mv\<close>

text \<open>
  \<^verbatim>\<open>basename\<close> of \<^verbatim>\<open>libgen.h\<close>: the last component, and the string with its trailing
  slashes cut off (it is changed in place).
\<close>

definition strip_slashes :: "string \<Rightarrow> string" where
  "strip_slashes s = rev (dropWhile (\<lambda>c. c = CHR ''/'') (rev s))"

definition last_component :: "string \<Rightarrow> string" where
  "last_component s = rev (takeWhile (\<lambda>c. c \<noteq> CHR ''/'') (rev s))"

definition posix_basename :: "string \<Rightarrow> string \<times> string" where
  "posix_basename s =
     (if s = [] then (''.'', s)
      else if strip_slashes s = [] then (''/'', s)
      else (last_component (strip_slashes s), strip_slashes s))"

definition quoted :: "string \<Rightarrow> string" where
  "quoted s = [CHR 0x27] @ s @ [CHR 0x27]"

text \<open>
  Where the copy goes: into a directory under the source's name, else to the path itself; both
  cut to the buffer.
\<close>

definition full_target :: "canon \<Rightarrow> shell \<Rightarrow> string \<Rightarrow> string \<Rightarrow> string" where
  "full_target canon sh target_path source_filename =
     (if sh_fs sh (canon (sh_cwd sh) target_path) = Some Dir
      then take (CMD_PATH_MAX - 1) (target_path @ ''/'' @ source_filename)
      else take (CMD_PATH_MAX - 1) target_path)"

text \<open>
  The loop that copies 1024 bytes at a time: \<open>rok\<close> says whether the n-th \<^verbatim>\<open>read\<close>
  succeeds, \<open>room\<close> how many bytes the n-th \<^verbatim>\<open>write\<close> can take; taking fewer than asked is an
  error for the code, though they are in the file then. The result is what was written and how it
  ended.
\<close>

datatype copy_end = Copied | Read_Failed | Write_Failed

function copy_loop :: "(nat \<Rightarrow> bool) \<Rightarrow> (nat \<Rightarrow> nat) \<Rightarrow> nat \<Rightarrow> string \<Rightarrow> string \<Rightarrow> string \<times> copy_end" where
  "copy_loop rok room n src dst =
     (if \<not> rok n then (dst, Read_Failed)
      else if src = [] then (dst, Copied)
      else let buf = take 1024 src; written = min (room n) (length buf) in
        if written \<noteq> length buf then (dst @ take written buf, Write_Failed)
        else copy_loop rok room (Suc n) (drop 1024 src) (dst @ buf))"
  by pat_completeness auto
termination
  by (relation "measure (\<lambda>(_, _, _, src, _). length src)") auto

declare copy_loop.simps [simp del]

text \<open>
  \<open>can_create\<close>: whether \<^verbatim>\<open>open\<close> with \<^verbatim>\<open>O_CREAT | O_EXCL\<close> succeeds for a name that
  is not there. Opening a directory for reading succeeds, reading it fails.
\<close>

record io =
  io_can_read :: "string \<Rightarrow> bool"
  io_can_create :: "string \<Rightarrow> bool"
  io_read_ok :: "nat \<Rightarrow> bool"
  io_room :: "nat \<Rightarrow> nat"
  io_rename_ok :: "string \<Rightarrow> string \<Rightarrow> bool"

definition contents :: "node \<Rightarrow> string" where
  "contents n = (case n of File s \<Rightarrow> s | Dir \<Rightarrow> [])"

definition cp_command :: "canon \<Rightarrow> io \<Rightarrow> string list \<Rightarrow> shell \<Rightarrow> sh_out list \<times> shell" where
  "cp_command canon io args sh =
     (if length args \<le> 2 then ([Err ''Usage: cp <source> <destination>''], sh)
      else
        let source_path = args ! 1; target_path = args ! 2 in
        if sh_fs sh (canon (sh_cwd sh) source_path) = None then ([Err ''src does not exist''], sh)
        else
          let (source_filename, source_path') = posix_basename source_path;
              full_target_path = full_target canon sh target_path source_filename;
              target = canon (sh_cwd sh) full_target_path
          in
          if sh_fs sh target \<noteq> None
          then ([Err (''Error: Target file '' @ quoted full_target_path @ '' already exists'')], sh)
          else
            case sh_fs sh (canon (sh_cwd sh) source_path') of
              None \<Rightarrow> ([Err ''err opening src file''], sh)
            | Some src \<Rightarrow>
                if \<not> io_can_read io source_path' then ([Err ''err opening src file''], sh)
                else if \<not> io_can_create io full_target_path then ([Err ''err opening dest file''], sh)
                else
                  let rok = (\<lambda>n. io_read_ok io n \<and> src \<noteq> Dir);
                      (dst, how) = copy_loop rok (io_room io) 0 (contents src) [];
                      sh' = sh\<lparr>sh_fs := (sh_fs sh)(target \<mapsto> File dst)\<rparr>
                  in (case how of
                        Write_Failed \<Rightarrow> ([Err ''W err''], sh')
                      | Read_Failed \<Rightarrow> ([Err ''R err'', Out (''File copied successfully to: '' @ full_target_path)], sh')
                      | Copied \<Rightarrow> ([Out (''File copied successfully to: '' @ full_target_path)], sh')))"

text \<open>
  \<^verbatim>\<open>rename\<close>, where the system allows it: a file gets its new name, a directory takes all that
  is in it along.
\<close>

definition at_slash :: "string \<Rightarrow> bool" where
  "at_slash r \<longleftrightarrow> r = [] \<or> hd r = CHR ''/''"

definition move_tree :: "string \<Rightarrow> string \<Rightarrow> fs \<Rightarrow> fs" where
  "move_tree a b fs = (\<lambda>p.
     if take (length b) p = b \<and> at_slash (drop (length b) p) then fs (a @ drop (length b) p)
     else if take (length a) p = a \<and> at_slash (drop (length a) p) then None
     else fs p)"

definition posix_rename :: "io \<Rightarrow> string \<Rightarrow> string \<Rightarrow> fs \<Rightarrow> fs option" where
  "posix_rename io a b fs =
     (if \<not> io_rename_ok io a b then None
      else case fs a of
             None \<Rightarrow> None
           | Some (File s) \<Rightarrow> Some (fs(a := None, b \<mapsto> File s))
           | Some Dir \<Rightarrow> Some (move_tree a b fs))"

definition mv_command :: "canon \<Rightarrow> io \<Rightarrow> string list \<Rightarrow> shell \<Rightarrow> int \<times> sh_out list \<times> shell" where
  "mv_command canon io args sh =
     (if length args \<le> 2 then (1, [Err ''Usage: mv <source> <destination>''], sh)
      else
        let source_path = args ! 1; target_path = args ! 2 in
        if sh_fs sh (canon (sh_cwd sh) source_path) = None
        then (1, [Err (''err: src file '' @ quoted source_path @ '' does not exist'')], sh)
        else
          let (source_filename, source_path') = posix_basename source_path;
              full_target_path = full_target canon sh target_path source_filename
          in
          if sh_fs sh (canon (sh_cwd sh) full_target_path) \<noteq> None
          then (1, [Err (''err: Target file '' @ quoted full_target_path @ '' already exists'')], sh)
          else
            case posix_rename io (canon (sh_cwd sh) source_path') (canon (sh_cwd sh) full_target_path) (sh_fs sh) of
              None \<Rightarrow> (1, [Err ''err moving file''], sh)
            | Some fs' \<Rightarrow> (0, [Out (''File moved successfully to: '' @ full_target_path)], sh\<lparr>sh_fs := fs'\<rparr>))"

section \<open>type\<close>

definition builtins :: "string list" where
  "builtins = [''envir'', ''cd'', ''exitlq'', ''type'', ''help'', ''echolq'', ''pwdlq'', ''cplq'', ''mvlq'',
     ''freelq'', ''uptimelq'']"

fun builtin_loop :: "string \<Rightarrow> string list \<Rightarrow> int" where
  "builtin_loop command [] = 0"
| "builtin_loop command (b # bs) = (if strcmp command b = 0 then 1 else builtin_loop command bs)"

definition is_builtin :: "string \<Rightarrow> int" where
  "is_builtin command = builtin_loop command builtins"

text \<open>
  The directories of \<^verbatim>\<open>PATH\<close>, as \<^verbatim>\<open>strtok\<close> splits it; \<open>x_ok\<close> is
  \<^verbatim>\<open>access(..., X_OK) == 0\<close>.
\<close>

function path_loop :: "(string \<Rightarrow> bool) \<Rightarrow> string \<Rightarrow> string \<Rightarrow> int" where
  "path_loop x_ok command path =
     (case strtok '':'' path of
        None \<Rightarrow> 0
      | Some (dir, rest) \<Rightarrow>
          if x_ok (take 1023 (dir @ ''/'' @ command)) then 1 else path_loop x_ok command rest)"
  by pat_completeness auto
termination
  by (relation "measure (\<lambda>(_, _, path). length path)") (auto dest: strtok_shorter)

declare path_loop.simps [simp del]

definition is_executable :: "(string \<Rightarrow> bool) \<Rightarrow> shell \<Rightarrow> string \<Rightarrow> int" where
  "is_executable x_ok sh command =
     (case map_of (sh_env sh) ''PATH'' of None \<Rightarrow> 0 | Some path \<Rightarrow> path_loop x_ok command path)"

definition type_command :: "(string \<Rightarrow> bool) \<Rightarrow> shell \<Rightarrow> string option \<Rightarrow> sh_out list" where
  "type_command x_ok sh command =
     (case command of
        None \<Rightarrow> [Err ''Usage: typelq <command>'']
      | Some c \<Rightarrow>
          if is_builtin c \<noteq> 0 then [Out (c @ '' is an internal command (builtin)'')]
          else if is_executable x_ok sh c \<noteq> 0 then [Out (c @ '' is an external command (executable)'')]
          else [Out (c @ '' is an unsupported command'')])"

section \<open>Uptime\<close>

text \<open>
  \<open>whole\<close> are the seconds as \<^verbatim>\<open>(int)seconds\<close> gives them; C's division and remainder of
  a negative number are those of its absolute value with the sign.
\<close>

definition cdiv :: "int \<Rightarrow> int \<Rightarrow> int" where "cdiv a b = sgn a * (\<bar>a\<bar> div b)"
definition cmod :: "int \<Rightarrow> int \<Rightarrow> int" where "cmod a b = sgn a * (\<bar>a\<bar> mod b)"

lemma cdiv_pos: "0 \<le> a \<Longrightarrow> cdiv a b = a div b"
  by (cases "a = 0") (simp_all add: cdiv_def)

lemma cmod_pos: "0 \<le> a \<Longrightarrow> cmod a b = a mod b"
  by (cases "a = 0") (simp_all add: cmod_def)

definition format_time :: "int \<Rightarrow> nat \<Rightarrow> string" where
  "format_time whole sz =
     (let hours = cdiv whole 3600; minutes = cdiv (cmod whole 3600) 60; secs = cmod whole 60
      in take (sz - 1) (fmt_02d hours @ '':'' @ fmt_02d minutes @ '':'' @ fmt_02d secs))"

text \<open>
  What opening and reading \<^verbatim>\<open>/proc/uptime\<close> gives; \<open>parse\<close> are the two numbers in whole
  seconds, as \<^verbatim>\<open>sscanf\<close> and the casts give them.
\<close>

datatype uptime_file = Uptime_No_Open | Uptime_No_Read | Uptime_Text string

definition uptime_command :: "uptime_file \<Rightarrow> (string \<Rightarrow> (int \<times> int) option) \<Rightarrow> sh_out list" where
  "uptime_command file parse =
     (case file of
        Uptime_No_Open \<Rightarrow> [Err ''Error opening uptime file'']
      | Uptime_No_Read \<Rightarrow> [Err ''Error reading uptime file'']
      | Uptime_Text txt \<Rightarrow>
          (case parse (take 127 txt) of
             None \<Rightarrow> [Err ''Error parsing uptime data'']
           | Some (uptime, idle) \<Rightarrow>
               [Out (''Uptime: '' @ format_time uptime 16), Out (''Time Idle: '' @ format_time idle 16)]))"

section \<open>Memory\<close>

record MemInfo =
  MemTotal :: "64 word"
  SwapTotal :: "64 word"
  MemFree :: "64 word"
  SwapFree :: "64 word"
  Shmem :: "64 word"
  Buffers :: "64 word"
  Cached :: "64 word"
  SReclaimable :: "64 word"
  MemAvailable :: "64 word"

text \<open>
  The patterns are all \<^verbatim>\<open>KEY:\s+([0-9]+)\<close>, matched anywhere in the line, at the leftmost
  place; the result is the line from the first digit of the group on.
\<close>

definition re_at :: "string \<Rightarrow> string \<Rightarrow> string option" where
  "re_at key s =
     (if take (length key + 1) s = key @ '':'' then
        let r = drop (length key + 1) s; d = dropWhile c_isspace r
        in if r \<noteq> [] \<and> c_isspace (hd r) \<and> d \<noteq> [] \<and> c_isdigit (hd d) then Some d else None
      else None)"

fun re_search :: "string \<Rightarrow> string \<Rightarrow> string option" where
  "re_search key [] = None"
| "re_search key (c # cs) =
     (case re_at key (c # cs) of Some d \<Rightarrow> Some d | None \<Rightarrow> re_search key cs)"

text \<open>\<^verbatim>\<open>sscanf(..., "%lu", &value)\<close> at a digit.\<close>

definition scan_lu :: "string \<Rightarrow> 64 word" where
  "scan_lu s = of_int (min 18446744073709551615 (int (fst (dec_digits 0 s))))"

text \<open>
  The inner loop: the complete lines of the buffer, up to the first match; \<open>Inr\<close> is the rest
  behind the last newline. The text is without NUL, as \<^verbatim>\<open>/proc/meminfo\<close> is: at a NUL
  \<^verbatim>\<open>strchr\<close> and \<^verbatim>\<open>regexec\<close> would stop.
\<close>

function scan_lines :: "string \<Rightarrow> string \<Rightarrow> 64 word + string" where
  "scan_lines key s =
     (case dropWhile (\<lambda>c. c \<noteq> CHR ''\<newline>'') s of
        [] \<Rightarrow> Inr s
      | _ # rest \<Rightarrow>
          (case re_search key (takeWhile (\<lambda>c. c \<noteq> CHR ''\<newline>'') s) of
             Some d \<Rightarrow> Inl (scan_lu d)
           | None \<Rightarrow> scan_lines key rest))"
  by pat_completeness auto
termination
proof (relation "measure (\<lambda>(_, s). length s)")
  fix key s x rest
  assume "dropWhile (\<lambda>c. c \<noteq> CHR ''\<newline>'') s = x # rest"
  then have "length (x # rest) \<le> length s" by (metis length_dropWhile_le)
  then show "((key, rest), key, s) \<in> measure (\<lambda>(_, s). length s)" by simp
qed simp

declare scan_lines.simps [simp del]

text \<open>
  The outer loop. \<open>sizes\<close>: how much each \<^verbatim>\<open>read\<close> is willing to return; \<open>rem\<close>: the
  part of a line moved to the front of the buffer of 1024 bytes; \<open>file\<close>: what is not read yet.
\<close>

definition BUFFER_SIZE :: nat where "BUFFER_SIZE = 1024"

fun meminfo_loop :: "string \<Rightarrow> nat list \<Rightarrow> string \<Rightarrow> string \<Rightarrow> 64 word" where
  "meminfo_loop key [] rem file = 0"
| "meminfo_loop key (k # ks) rem file =
     (let bytes_read = min k (min (BUFFER_SIZE - length rem - 1) (length file)) in
      if bytes_read = 0 then 0
      else (case scan_lines key (rem @ take bytes_read file) of
              Inl value \<Rightarrow> value
            | Inr rem' \<Rightarrow> meminfo_loop key ks rem' (drop bytes_read file)))"

definition read_meminfo_value :: "nat list \<Rightarrow> string option \<Rightarrow> string \<Rightarrow> 64 word" where
  "read_meminfo_value sizes file key =
     (case file of None \<Rightarrow> 0 | Some txt \<Rightarrow> meminfo_loop key sizes [] txt)"

text \<open>\<^verbatim>\<open>exit(1)\<close> ends the shell.\<close>

definition gather_meminfo :: "nat list \<Rightarrow> string option \<Rightarrow> MemInfo c_res" where
  "gather_meminfo sizes file =
     (let rd = read_meminfo_value sizes file;
          info = \<lparr>MemTotal = rd ''MemTotal'', SwapTotal = rd ''SwapTotal'', MemFree = rd ''MemFree'',
                  SwapFree = rd ''SwapFree'', Shmem = rd ''Shmem'', Buffers = rd ''Buffers'',
                  Cached = rd ''Cached'', SReclaimable = rd ''SReclaimable'',
                  MemAvailable = rd ''MemAvailable''\<rparr>
      in if MemTotal info = 0 \<or> SwapTotal info = 0 \<or> MemFree info = 0 \<or> SwapFree info = 0 \<or>
            MemAvailable info = 0
         then Inl Exit_Failure else Inr info)"

definition fmt_11lu :: "64 word \<Rightarrow> string" where
  "fmt_11lu w = pad_left (CHR '' '') 11 (radix_str 10 (unat w))"

definition free_command :: "nat list \<Rightarrow> string option \<Rightarrow> sh_out list c_res" where
  "free_command sizes file =
     c_bind (gather_meminfo sizes file) (\<lambda>info.
       let MemUsed = MemTotal info - MemFree info - Buffers info - Cached info - SReclaimable info;
           SwapUsed = SwapTotal info - SwapFree info;
           buff_cache = Buffers info + Cached info + SReclaimable info
       in Inr [Out ''              total        used        free      shared  buff/cache   available'',
               Out (''Mem:    '' @ fmt_11lu (MemTotal info) @ '' '' @ fmt_11lu MemUsed @ '' '' @
                 fmt_11lu (MemFree info) @ '' '' @ fmt_11lu (Shmem info) @ '' '' @ fmt_11lu buff_cache @ '' '' @
                 fmt_11lu (MemAvailable info)),
               Out (''Swap:   '' @ fmt_11lu (SwapTotal info) @ '' '' @ fmt_11lu SwapUsed @ '' '' @
                 fmt_11lu (SwapFree info))])"

section \<open>Reading in pieces\<close>

lemma dropWhile_append_some:
  "dropWhile P xs = y # ys \<Longrightarrow> dropWhile P (xs @ zs) = y # ys @ zs \<and> takeWhile P (xs @ zs) = takeWhile P xs"
  by (induction xs) (auto split: if_splits)

lemma scan_lines_none:
  "dropWhile (\<lambda>c. c \<noteq> CHR ''\<newline>'') s = [] \<Longrightarrow> scan_lines key s = Inr s"
  by (subst scan_lines.simps) (simp only: list.case)

lemma scan_lines_no_newline: "CHR ''\<newline>'' \<notin> set s \<Longrightarrow> scan_lines key s = Inr s"
  by (rule scan_lines_none) (auto simp: dropWhile_eq_Nil_conv)

text \<open>Scanning a text is scanning its beginning and going on with the unfinished line.\<close>

lemma scan_lines_append:
  "scan_lines key (a @ b) =
   (case scan_lines key a of Inl v \<Rightarrow> Inl v | Inr rest \<Rightarrow> scan_lines key (rest @ b))"
proof (induction key a rule: scan_lines.induct)
  case (1 key s)
  let ?nl = "\<lambda>c. c \<noteq> CHR ''\<newline>''"
  show ?case
  proof (cases "dropWhile ?nl s")
    case Nil
    then have "scan_lines key s = Inr s" by (rule scan_lines_none)
    then show ?thesis by simp
  next
    case (Cons y rest)
    note ap = dropWhile_append_some [OF Cons, of b]
    show ?thesis
    proof (cases "re_search key (takeWhile ?nl s)")
      case None
      have "scan_lines key s = scan_lines key rest"
        using Cons None by (subst scan_lines.simps) simp
      moreover have "scan_lines key (s @ b) = scan_lines key (rest @ b)"
        using ap None by (subst scan_lines.simps) simp
      ultimately show ?thesis using 1 [OF Cons None] by simp
    next
      case (Some d)
      have "scan_lines key s = Inl (scan_lu d)" using Cons Some by (subst scan_lines.simps) simp
      moreover have "scan_lines key (s @ b) = Inl (scan_lu d)"
        using ap Some by (subst scan_lines.simps) simp
      ultimately show ?thesis by simp
    qed
  qed
qed

lemma scan_lines_rest:
  "scan_lines key s = Inr r \<Longrightarrow> CHR ''\<newline>'' \<notin> set r \<and> (\<exists>p. s = p @ r)"
proof (induction key s rule: scan_lines.induct)
  case (1 key s)
  let ?nl = "\<lambda>c. c \<noteq> CHR ''\<newline>''"
  show ?case
  proof (cases "dropWhile ?nl s")
    case Nil
    then have "scan_lines key s = Inr s" by (rule scan_lines_none)
    with 1(2) Nil show ?thesis by auto
  next
    case (Cons y rest)
    have n: "re_search key (takeWhile ?nl s) = None"
    proof (cases "re_search key (takeWhile ?nl s)")
      case (Some d)
      with Cons have "scan_lines key s = Inl (scan_lu d)" by (subst scan_lines.simps) simp
      with 1(2) show ?thesis by simp
    qed simp
    have "scan_lines key s = scan_lines key rest"
      using Cons n by (subst scan_lines.simps) simp
    with 1(2) have "CHR ''\<newline>'' \<notin> set r \<and> (\<exists>p. rest = p @ r)" using 1(1) [OF Cons n] by simp
    moreover have "s = takeWhile ?nl s @ y # rest" by (metis Cons takeWhile_dropWhile_id)
    ultimately show ?thesis by (metis append_Cons append_assoc)
  qed
qed

text \<open>Lines that fit into the buffer.\<close>

definition short_lines :: "string \<Rightarrow> bool" where
  "short_lines s \<longleftrightarrow> (\<forall>p m q. s = p @ m @ q \<longrightarrow> CHR ''\<newline>'' \<notin> set m \<longrightarrow> length m < BUFFER_SIZE - 1)"

lemma meminfo_loop_scan:
  assumes "CHR ''\<newline>'' \<notin> set part" and "short_lines (part @ f)" and "\<forall>k \<in> set sizes. 0 < k"
    and "length f < length sizes"
  shows "meminfo_loop key sizes part f = (case scan_lines key (part @ f) of Inl v \<Rightarrow> v | Inr _ \<Rightarrow> 0)"
  using assms
proof (induction key sizes part f rule: meminfo_loop.induct)
  case (2 key k ks part u)
  let ?n = "min k (min (BUFFER_SIZE - length part - 1) (length u))"
  have "length part < BUFFER_SIZE - 1"
    using 2(2,3) unfolding short_lines_def by (metis append_Nil)
  then have n0: "?n = 0 \<longleftrightarrow> u = []" using 2(4) by (auto simp: min_def split: if_splits)
  show ?case
  proof (cases "u = []")
    case True
    have "scan_lines key part = Inr part" using 2(2) by (rule scan_lines_no_newline)
    with True show ?thesis by simp
  next
    case False
    with n0 have n: "?n \<noteq> 0" by blast
    have e: "part @ u = (part @ take ?n u) @ drop ?n u" by simp
    show ?thesis
    proof (cases "scan_lines key (part @ take ?n u)")
      case (Inl v)
      then have "scan_lines key (part @ u) = Inl v" by (subst e, subst scan_lines_append) simp
      with Inl n show ?thesis by (simp only: meminfo_loop.simps Let_def if_False sum.case)
    next
      case (Inr r)
      from scan_lines_rest [OF this] obtain p where r: "CHR ''\<newline>'' \<notin> set r" "part @ take ?n u = p @ r"
        by blast
      have s: "short_lines (r @ drop ?n u)"
        using 2(3) r(2) e unfolding short_lines_def by (metis append_assoc)
      have l: "length (drop ?n u) < length ks" using 2(5) n False by (cases u) (auto simp: min_def split: if_splits)
      have "scan_lines key (part @ u) = scan_lines key (r @ drop ?n u)"
        by (subst e, subst scan_lines_append) (simp only: Inr sum.case)
      moreover have "meminfo_loop key ks r (drop ?n u) =
          (case scan_lines key (r @ drop ?n u) of Inl v \<Rightarrow> v | Inr _ \<Rightarrow> 0)"
        using 2(1) [OF refl n Inr r(1) s _ l] 2(4) by simp
      ultimately show ?thesis
        using Inr n by (simp only: meminfo_loop.simps Let_def if_False sum.case)
    qed
  qed
qed simp

text \<open>The complete lines of a text, and the first value a key has in them.\<close>

fun lines_of :: "string \<Rightarrow> string \<Rightarrow> string list" where
  "lines_of acc [] = []"
| "lines_of acc (c # cs) = (if c = CHR ''\<newline>'' then acc # lines_of [] cs else lines_of (acc @ [c]) cs)"

fun first_value :: "string \<Rightarrow> string list \<Rightarrow> 64 word" where
  "first_value key [] = 0"
| "first_value key (l # ls) =
     (case re_search key l of Some d \<Rightarrow> scan_lu d | None \<Rightarrow> first_value key ls)"

lemma lines_of_line:
  "CHR ''\<newline>'' \<notin> set w \<Longrightarrow> lines_of acc (w @ CHR ''\<newline>'' # r) = (acc @ w) # lines_of [] r"
  by (induction w arbitrary: acc) auto

lemma lines_of_none: "CHR ''\<newline>'' \<notin> set w \<Longrightarrow> lines_of acc w = []"
  by (induction w arbitrary: acc) auto

lemma scan_lines_first:
  "(case scan_lines key s of Inl v \<Rightarrow> v | Inr _ \<Rightarrow> 0) = first_value key (lines_of [] s)"
proof (induction key s rule: scan_lines.induct)
  case (1 key s)
  let ?nl = "\<lambda>c. c \<noteq> CHR ''\<newline>''"
  show ?case
  proof (cases "dropWhile ?nl s")
    case Nil
    then have "CHR ''\<newline>'' \<notin> set s" by (auto simp: dropWhile_eq_Nil_conv)
    then show ?thesis by (simp add: scan_lines_no_newline lines_of_none)
  next
    case (Cons y rest)
    then have y: "y = CHR ''\<newline>''" by (metis (mono_tags) hd_dropWhile list.discI list.sel(1))
    have "s = takeWhile ?nl s @ CHR ''\<newline>'' # rest" using Cons y by (metis takeWhile_dropWhile_id)
    moreover have "CHR ''\<newline>'' \<notin> set (takeWhile ?nl s)" by (auto dest: set_takeWhileD)
    ultimately have "lines_of [] s = takeWhile ?nl s # lines_of [] rest"
      using lines_of_line [of "takeWhile ?nl s" "[]" rest] by simp
    moreover have "scan_lines key s = (case re_search key (takeWhile ?nl s) of
        Some d \<Rightarrow> Inl (scan_lu d) | None \<Rightarrow> scan_lines key rest)"
      using Cons by (subst scan_lines.simps) simp
    ultimately show ?thesis
      using 1 [OF Cons] by (cases "re_search key (takeWhile ?nl s)") simp_all
  qed
qed

text \<open>C16: Reading \<^verbatim>\<open>/proc/meminfo\<close> through the buffer of 1024 bytes gives the value of the
  first complete line of the file that has the key, in whatever pieces the kernel returns the file
  and wherever they cut its lines, as long as no line fills the buffer; without such a line it is 0.\<close>

theorem meminfo_value_correct:
  assumes "short_lines body" and "\<forall>k \<in> set sizes. 0 < k" and "length body < length sizes"
  shows "read_meminfo_value sizes (Some body) key = first_value key (lines_of [] body)"
  using meminfo_loop_scan [of "[]" body sizes key] assms scan_lines_first [of key body]
  by (simp add: read_meminfo_value_def)

definition meminfo_text :: string where
  "meminfo_text = ''MemTotal:  16 kB'' @ ''\<newline>'' @ ''SwapTotal: 0 kB'' @ ''\<newline>'' @ ''MemFree: 4'' @ ''\<newline>''"

theorem meminfo_value_correct_witness:
  "read_meminfo_value (replicate 100 7) (Some meminfo_text) ''MemFree'' = 4"
proof -
  have l: "length meminfo_text < 100" by (simp add: meminfo_text_def)
  have "short_lines meminfo_text"
    unfolding short_lines_def BUFFER_SIZE_def
  proof (intro allI impI)
    fix p m q assume "meminfo_text = p @ m @ q"
    from arg_cong [OF this, of length] have "length meminfo_text = length p + length m + length q"
      by (simp only: length_append add.assoc)
    with l show "length m < 1024 - 1" by simp
  qed
  moreover have "\<forall>k \<in> set (replicate 100 (7 :: nat)). 0 < k" by simp
  moreover have "length meminfo_text < length (replicate 100 (7 :: nat))" using l by simp
  ultimately have "read_meminfo_value (replicate 100 7) (Some meminfo_text) ''MemFree'' =
      first_value ''MemFree'' (lines_of [] meminfo_text)"
    by (rule meminfo_value_correct)
  also have "\<dots> = 4" by code_simp
  finally show ?thesis .
qed

section \<open>Copying and moving\<close>

lemma copy_loop_prefix:
  "copy_loop rok room n src dst = (out, how) \<Longrightarrow>
   \<exists>copied rest. src = copied @ rest \<and> out = dst @ copied \<and> (how = Copied \<longrightarrow> rest = [])"
proof (induction rok room n src dst rule: copy_loop.induct)
  case (1 rok room n src dst)
  show ?case
  proof (cases "rok n \<and> src \<noteq> []")
    case False
    with "1.prems" have "out = dst \<and> (how = Copied \<longrightarrow> src = [])"
      by (subst (asm) copy_loop.simps) (auto split: if_splits)
    then show ?thesis by (intro exI [of _ "[]"] exI [of _ src]) simp
  next
    case True
    show ?thesis
    proof (cases "min (room n) (length (take 1024 src)) = length (take 1024 src)")
      case False
      with True have "copy_loop rok room n src dst =
          (dst @ take (min (room n) (length (take 1024 src))) (take 1024 src), Write_Failed)"
        by (subst copy_loop.simps) (simp only: Let_def if_True if_False not_False_eq_True simp_thms)
      with "1.prems" have "out = dst @ take (min (room n) (min (length src) 1024)) src" "how = Write_Failed"
        by auto
      then show ?thesis
        by (metis append_take_drop_id copy_end.distinct(3))
    next
      case all: True
      with True "1.prems" have "copy_loop rok room (Suc n) (drop 1024 src) (dst @ take 1024 src) = (out, how)"
        by (subst (asm) copy_loop.simps) (simp add: Let_def)
      moreover from True all have "\<not> \<not> rok n" "src \<noteq> []"
        "\<not> min (room n) (length (take 1024 src)) \<noteq> length (take 1024 src)" by simp_all
      ultimately obtain ys rest where "drop 1024 src = ys @ rest" "out = (dst @ take 1024 src) @ ys"
        "how = Copied \<longrightarrow> rest = []"
        using 1(1) [OF _ _ refl refl] by blast
      moreover have "src = take 1024 src @ drop 1024 src" by simp
      ultimately have "src = (take 1024 src @ ys) @ rest" "out = dst @ take 1024 src @ ys" by simp_all
      with \<open>how = Copied \<longrightarrow> rest = []\<close> show ?thesis by blast
    qed
  qed
qed

lemma copy_loop_all:
  "(\<forall>n. rok n) \<Longrightarrow> (\<forall>n. 1024 \<le> room n) \<Longrightarrow> copy_loop rok room n src dst = (dst @ src, Copied)"
proof (induction rok room n src dst rule: copy_loop.induct)
  case (1 rok room n src dst)
  then have ok: "rok n" "min (room n) (length (take 1024 src)) = length (take 1024 src)"
    by (simp, metis length_take min.absorb2 min.bounded_iff min.cobounded2 order_trans)
  show ?case
  proof (cases "src = []")
    case True
    with ok show ?thesis by (subst copy_loop.simps) simp
  next
    case False
    have "copy_loop rok room (Suc n) (drop 1024 src) (dst @ take 1024 src) =
        ((dst @ take 1024 src) @ drop 1024 src, Copied)"
      by (rule 1(1)) (use ok False 1(2,3) in auto)
    with ok False show ?thesis by (subst copy_loop.simps) (simp add: Let_def)
  qed
qed

text \<open>What \<^verbatim>\<open>cplq\<close> can do to the files: at most one new one, a part of the source.\<close>

lemma cp_command_cases:
  assumes "cp_command canon io args sh = (outs, sh')"
  shows "sh' = sh \<or> (\<exists>t src copied rest. sh_fs sh t = None \<and>
    sh_fs sh (canon (sh_cwd sh) (snd (posix_basename (args ! 1)))) = Some src \<and>
    contents src = copied @ rest \<and> (length outs = 1 \<and> outs \<noteq> [Err ''W err''] \<longrightarrow> rest = []) \<and>
    sh' = sh\<lparr>sh_fs := (sh_fs sh)(t \<mapsto> File copied)\<rparr>)"
  using assms
  by (force simp: cp_command_def Let_def dest!: copy_loop_prefix
      split: if_splits option.splits prod.splits copy_end.splits)

text \<open>C17: \<^verbatim>\<open>cplq\<close> never changes a file or directory that exists. It makes at most one new
  file, whose contents are a beginning of the source, and all of it when the command reports its
  success and nothing else. When the source is a file, the place the copy goes to is free and no
  system call fails, it makes that file.\<close>

theorem cp_command_copies:
  assumes "cp_command canon io args sh = (outs, sh')"
  shows "(\<forall>p. sh_fs sh p \<noteq> None \<longrightarrow> sh_fs sh' p = sh_fs sh p) \<and> sh_cwd sh' = sh_cwd sh \<and>
    (sh' \<noteq> sh \<longrightarrow> (\<exists>t src copied rest. sh' = sh\<lparr>sh_fs := (sh_fs sh)(t \<mapsto> File copied)\<rparr> \<and>
      sh_fs sh (canon (sh_cwd sh) (snd (posix_basename (args ! 1)))) = Some src \<and>
      contents src = copied @ rest \<and> (\<forall>msg. outs = [Out msg] \<longrightarrow> rest = []))) \<and>
    (\<forall>cmd src dst s t. args = [cmd, src, dst] \<longrightarrow> strip_slashes src = src \<longrightarrow> src \<noteq> [] \<longrightarrow>
      sh_fs sh (canon (sh_cwd sh) src) = Some (File s) \<longrightarrow>
      t = full_target canon sh dst (last_component src) \<longrightarrow> sh_fs sh (canon (sh_cwd sh) t) = None \<longrightarrow>
      io_can_read io src \<longrightarrow> io_can_create io t \<longrightarrow> (\<forall>n. io_read_ok io n) \<longrightarrow> (\<forall>n. 1024 \<le> io_room io n) \<longrightarrow>
      sh' = sh\<lparr>sh_fs := (sh_fs sh)(canon (sh_cwd sh) t \<mapsto> File s)\<rparr> \<and>
      outs = [Out (''File copied successfully to: '' @ t)])"
proof (intro conjI)
  note c = cp_command_cases [OF assms]
  have "sh' = sh \<or> (\<exists>t d. sh_fs sh t = None \<and> sh' = sh\<lparr>sh_fs := (sh_fs sh)(t \<mapsto> File d)\<rparr>)"
    using c by blast
  then show "\<forall>p. sh_fs sh p \<noteq> None \<longrightarrow> sh_fs sh' p = sh_fs sh p" "sh_cwd sh' = sh_cwd sh"
    by auto
  show "sh' \<noteq> sh \<longrightarrow> (\<exists>t src copied rest. sh' = sh\<lparr>sh_fs := (sh_fs sh)(t \<mapsto> File copied)\<rparr> \<and>
      sh_fs sh (canon (sh_cwd sh) (snd (posix_basename (args ! 1)))) = Some src \<and>
      contents src = copied @ rest \<and> (\<forall>msg. outs = [Out msg] \<longrightarrow> rest = []))"
    using c by force
qed (use assms in \<open>auto simp: cp_command_def posix_basename_def Let_def copy_loop_all contents_def\<close>)

definition abs_path :: canon where
  "abs_path cwd p = (if take 1 p = ''/'' then p else cwd @ ''/'' @ p)"

definition good_io :: io where
  "good_io = \<lparr>io_can_read = (\<lambda>_. True), io_can_create = (\<lambda>_. True), io_read_ok = (\<lambda>_. True),
     io_room = (\<lambda>_. 4096), io_rename_ok = (\<lambda>_ _. True)\<rparr>"

definition home :: shell where
  "home = \<lparr>sh_cwd = ''/home'', sh_fs = [''/home'' \<mapsto> Dir, ''/home/a'' \<mapsto> File ''text'', ''/home/d'' \<mapsto> Dir],
     sh_env = [(''PATH'', ''/bin:/usr/bin'')]\<rparr>"

theorem cp_command_copies_witness:
  "\<exists>outs sh'. cp_command abs_path good_io [''cplq'', ''a'', ''d''] home = (outs, sh') \<and>
     sh_fs sh' ''/home/d/a'' = Some (File ''text'') \<and> sh_fs sh' ''/home/a'' = Some (File ''text'')"
proof -
  obtain outs sh' where c: "cp_command abs_path good_io [''cplq'', ''a'', ''d''] home = (outs, sh')" by fastforce
  have t: "full_target abs_path home ''d'' (last_component ''a'') = ''d/a''"
    by (simp add: full_target_def home_def abs_path_def last_component_def CMD_PATH_MAX_def)
  have "strip_slashes ''a'' = ''a''" by (simp add: strip_slashes_def)
  with cp_command_copies [OF c] t have "sh' = home\<lparr>sh_fs := (sh_fs home)(''/home/d/a'' \<mapsto> File ''text'')\<rparr>"
    by (auto simp: home_def abs_path_def good_io_def)
  then show ?thesis using c by (simp add: home_def)
qed

lemma basename_split:
  assumes "pre = [] \<or> last pre = CHR ''/''" and "CHR ''/'' \<notin> set name" and "name \<noteq> []"
  shows "posix_basename (pre @ name) = (name, pre @ name)"
proof -
  obtain cs c where n: "name = cs @ [c]" using assms(3) by (cases name rule: rev_cases) auto
  then have strip: "strip_slashes (pre @ name) = pre @ name"
    using assms(2) by (auto simp: strip_slashes_def)
  have "takeWhile (\<lambda>c. c \<noteq> CHR ''/'') (rev name @ rev pre) =
      rev name @ takeWhile (\<lambda>c. c \<noteq> CHR ''/'') (rev pre)"
    by (rule takeWhile_append2) (use assms(2) in auto)
  also have "takeWhile (\<lambda>c. c \<noteq> CHR ''/'') (rev pre) = []"
    using assms(1) by (cases pre rule: rev_cases) auto
  finally have "takeWhile (\<lambda>c. c \<noteq> CHR ''/'') (rev name @ rev pre) = rev name" by simp
  then have "last_component (pre @ name) = name" by (simp add: last_component_def)
  with strip assms(3) show ?thesis by (simp add: posix_basename_def)
qed

text \<open>C18: \<^verbatim>\<open>mvlq\<close> of a plain file \<^verbatim>\<open>pre/name\<close> to \<open>dst\<close>: its new place is
  \<^verbatim>\<open>dst/name\<close> when \<open>dst\<close> is a directory and \<open>dst\<close> itself when it is not. If nothing is there and the
  system allows it, the file is moved there with its contents, nothing else changes, and the command
  returns 0 and names the place; otherwise it returns 1 with one message and nothing has changed.\<close>

theorem mv_command_moves:
  assumes "mv_command canon io (cmd # (pre @ name) # dst # rest) sh = (status, outs, sh')"
    and "pre = [] \<or> last pre = CHR ''/''" and "CHR ''/'' \<notin> set name" and "name \<noteq> []"
    and "sh_fs sh (canon (sh_cwd sh) (pre @ name)) = Some (File s)"
    and "length dst + length name < 2047"
  shows "let src = canon (sh_cwd sh) (pre @ name);
      place = (if sh_fs sh (canon (sh_cwd sh) dst) = Some Dir then dst @ ''/'' @ name else dst);
      target = canon (sh_cwd sh) place
    in if sh_fs sh target = None \<and> io_rename_ok io src target
       then status = 0 \<and> outs = [Out (''File moved successfully to: '' @ place)] \<and>
         sh_fs sh' target = Some (File s) \<and> sh_fs sh' src = None \<and>
         (\<forall>p. p \<notin> {src, target} \<longrightarrow> sh_fs sh' p = sh_fs sh p) \<and>
         sh_cwd sh' = sh_cwd sh \<and> sh_env sh' = sh_env sh
       else status = 1 \<and> sh' = sh \<and> (\<exists>msg. outs = [Err msg])"
proof -
  let ?place = "if sh_fs sh (canon (sh_cwd sh) dst) = Some Dir then dst @ ''/'' @ name else dst"
  have t: "full_target canon sh dst name = ?place"
    using assms(6) by (simp add: full_target_def CMD_PATH_MAX_def)
  let ?src = "canon (sh_cwd sh) (pre @ name)" and ?target = "canon (sh_cwd sh) ?place"
  define args where "args = cmd # (pre @ name) # dst # rest"
  have a: "(length args \<le> 2) = False" "args ! 1 = pre @ name" "args ! 2 = dst"
    by (simp_all add: args_def)
  have e: "(sh_fs sh ?src = None) = False" using assms(5) by simp
  have m: "mv_command canon io args sh =
      (if sh_fs sh ?target \<noteq> None
       then (1, [Err (''err: Target file '' @ quoted ?place @ '' already exists'')], sh)
       else if \<not> io_rename_ok io ?src ?target then (1, [Err ''err moving file''], sh)
       else (0, [Out (''File moved successfully to: '' @ ?place)],
             sh\<lparr>sh_fs := (sh_fs sh)(?src := None, ?target \<mapsto> File s)\<rparr>))"
    unfolding mv_command_def Let_def a e if_False basename_split [OF assms(2-4)] prod.case t posix_rename_def
      assms(5) option.case node.case
    by (cases "io_rename_ok io ?src ?target") (simp_all only: option.distinct not_True_eq_False not_False_eq_True if_True if_False option.case)
  have "?src \<noteq> ?target" if "sh_fs sh ?target = None"
  proof
    assume eq: "?src = ?target"
    from assms(5) that show False unfolding eq by (simp only: option.distinct)
  qed
  then show ?thesis
    using assms(1) unfolding args_def [symmetric] m Let_def by (auto split: if_split_asm)
qed

theorem mv_command_moves_witness:
  "\<exists>outs sh'. mv_command abs_path good_io [''mvlq'', ''a'', ''d''] home = (0, outs, sh') \<and>
     sh_fs sh' ''/home/d/a'' = Some (File ''text'') \<and> sh_fs sh' ''/home/a'' = None"
proof -
  obtain status outs sh' where c: "mv_command abs_path good_io (''mvlq'' # ([] @ ''a'') # ''d'' # []) home = (status, outs, sh')"
    by (metis prod.collapse)
  have fs: "sh_fs home (abs_path (sh_cwd home) ([] @ ''a'')) = Some (File ''text'')"
    "length ''d'' + length ''a'' < 2047" by (simp_all add: home_def abs_path_def)
  have p: "(if sh_fs home (abs_path (sh_cwd home) ''d'') = Some Dir then ''d'' @ ''/'' @ ''a'' else ''d'') = ''d/a''"
    and n: "sh_fs home (abs_path (sh_cwd home) ''d/a'') = None" and ok: "io_rename_ok good_io x y"
    and a: "abs_path (sh_cwd home) ''d/a'' = ''/home/d/a''" "abs_path (sh_cwd home) ([] @ ''a'') = ''/home/a''" for x y
    by (simp_all add: home_def abs_path_def good_io_def)
  from mv_command_moves [OF c _ _ _ fs, unfolded Let_def p, simplified n ok]
  have "status = 0 \<and> sh_fs sh' ''/home/d/a'' = Some (File ''text'') \<and> sh_fs sh' ''/home/a'' = None"
    unfolding a by simp
  with c show ?thesis by auto
qed

section \<open>Times\<close>

text \<open>Reading a time \<open>h:m:s\<close> back.\<close>

definition clock_val :: "string \<Rightarrow> int option" where
  "clock_val t =
     (case scan_d t of
        (Some h, c # r) \<Rightarrow>
          (case scan_d r of
             (Some m, d # r') \<Rightarrow>
               (case scan_d r' of
                  (Some s, []) \<Rightarrow>
                    if c = CHR '':'' \<and> d = CHR '':'' \<and> m < 60 \<and> s < 60 then Some (3600 * h + 60 * m + s) else None
                | _ \<Rightarrow> None)
           | _ \<Rightarrow> None)
      | _ \<Rightarrow> None)"

text \<open>C19: A time is printed as it is: for every number of seconds an \<^verbatim>\<open>int\<close> can hold, the text
  in the buffer of 16 bytes is complete, its minutes and seconds are below 60, and read back it is
  the number of seconds.\<close>

theorem format_time_reads_back:
  assumes "0 \<le> whole" and "in32 whole"
  shows "clock_val (format_time whole 16) = Some whole"
proof -
  let ?h = "whole div 3600" and ?m = "whole mod 3600 div 60" and ?s = "whole mod 60"
  have hms: "0 \<le> ?h" "?h < 10 ^ 6" "0 \<le> ?m" "?m < 60" "0 \<le> ?s" "?s < 60"
    using assms by (auto simp: in32_def)
  have "whole mod 3600 mod 60 = ?s" by (rule mod_mod_cancel) simp
  then have eq: "3600 * ?h + 60 * ?m + ?s = whole"
    using div_mult_mod_eq [of whole 3600] div_mult_mod_eq [of "whole mod 3600" 60] by linarith
  have small: "in32 ?h" "in32 ?m" "in32 ?s" using hms by (auto simp: in32_def)
  have "length (radix_str 10 (nat ?h)) \<le> 6"
    by (rule length_radix10_le) (use hms in auto)
  then have "length (fmt_02d ?h) \<le> 6" using hms by (simp add: fmt_02d_def length_pad_left)
  moreover have "length (fmt_02d ?m) = 2" "length (fmt_02d ?s) = 2"
    using hms by (simp_all only: length_fmt_02d)
  ultimately have "take 15 (fmt_02d ?h @ CHR '':'' # fmt_02d ?m @ CHR '':'' # fmt_02d ?s) =
      fmt_02d ?h @ CHR '':'' # fmt_02d ?m @ CHR '':'' # fmt_02d ?s"
    by (intro take_all) simp
  then have "format_time whole 16 = fmt_02d ?h @ CHR '':'' # fmt_02d ?m @ CHR '':'' # fmt_02d ?s"
    by (simp add: format_time_def Let_def cdiv_pos cmod_pos assms)
  moreover have "\<not> c_isdigit (CHR '':'')" by (simp add: c_isdigit_def)
  ultimately show ?thesis
    using hms small eq scan_d_fmt_02d [of ?s "[]"]
    by (simp add: clock_val_def scan_d_fmt_02d)
qed

theorem format_time_reads_back_witness: "clock_val (format_time 360000 16) = Some 360000"
  by (rule format_time_reads_back) (simp_all add: in32_def)

end
