(* ===== verification/Lq_Shell.thy ===== *)
theory Lq_Shell
  imports Shell_Commands
begin

text \<open>
  \<^verbatim>\<open>LQ_SHELL/lqshell_optm.c\<close>: splitting a line into arguments, redirections, pipes, and the
  loop that reads lines and runs the commands of \<^verbatim>\<open>Shell_Commands\<close> or programs. Starting a
  program is an event with its arguments and the files its standard streams are connected to;
  what the program does is not part of the shell.
\<close>

section \<open>Arguments\<close>

definition INITIAL_ARG_SIZE :: nat where "INITIAL_ARG_SIZE = 10"
definition ARG_INCREMENT :: nat where "ARG_INCREMENT = 10"
definition INITIAL_INPUT_SIZE :: nat where "INITIAL_INPUT_SIZE = 100"
definition MAX_ARGS :: nat where "MAX_ARGS = 64"

definition line_delims :: string where "line_delims = '' '' @ ''\<newline>''"

text \<open>
  The loop over the tokens. The array has room for \<open>sz\<close> pointers; it is enlarged before a
  token is stored, and the NULL behind the last one is stored at the end.
\<close>

function token_loop :: "nat \<Rightarrow> string list \<Rightarrow> string \<Rightarrow> string list c_res" where
  "token_loop sz args s =
     (case strtok line_delims s of
        None \<Rightarrow> if length args < sz then Inr args else Inl Out_Of_Bounds
      | Some (token, rest) \<Rightarrow>
          token_loop (if length args \<ge> sz then sz + ARG_INCREMENT else sz) (args @ [token]) rest)"
  by pat_completeness auto
termination
  by (relation "measure (\<lambda>(_, _, s). length s)") (auto dest: strtok_shorter)

declare token_loop.simps [simp del]

definition lq_parse_input :: "string \<Rightarrow> string list c_res" where
  "lq_parse_input input = token_loop INITIAL_ARG_SIZE [] (cstr input)"

section \<open>Running a program\<close>

datatype open_mode = Read_Only | Truncate | Append

record exec_plan =
  ep_args :: "string list"
  ep_in :: "string option"
  ep_out :: "(string \<times> open_mode) option"
  ep_err :: "string option"

text \<open>
  The loop over the words: redirections open their file at once, other words become arguments
  while there is room. \<open>open_ok\<close> says which opens succeed. \<open>Inl\<close> is the message of the
  early return.
\<close>

fun redirect_loop :: "(string \<Rightarrow> open_mode \<Rightarrow> bool) \<Rightarrow> string list \<Rightarrow> exec_plan \<Rightarrow> string + exec_plan" where
  "redirect_loop open_ok [] plan = Inr plan"
| "redirect_loop open_ok (a # rest) plan =
     (if \<not> length (ep_args plan) < MAX_ARGS - 1 then Inr plan
      else if a = ''<'' then
        (case rest of
           [] \<Rightarrow> Inl ''Error: Missing input file''
         | f # rest' \<Rightarrow>
             if open_ok f Read_Only then redirect_loop open_ok rest' (plan\<lparr>ep_in := Some f\<rparr>)
             else Inl ''Error opening input file'')
      else if a = ''>'' then
        (case rest of
           [] \<Rightarrow> Inl ''Error: Missing output file''
         | f # rest' \<Rightarrow>
             if open_ok f Truncate then redirect_loop open_ok rest' (plan\<lparr>ep_out := Some (f, Truncate)\<rparr>)
             else Inl ''Error opening output file'')
      else if a = ''>>'' then
        (case rest of
           [] \<Rightarrow> Inl ''Error: Missing output file''
         | f # rest' \<Rightarrow>
             if open_ok f Append then redirect_loop open_ok rest' (plan\<lparr>ep_out := Some (f, Append)\<rparr>)
             else Inl ''Error opening output file'')
      else if a = ''2>'' then
        (case rest of
           [] \<Rightarrow> Inl ''Error: Missing error file''
         | f # rest' \<Rightarrow>
             if open_ok f Truncate then redirect_loop open_ok rest' (plan\<lparr>ep_err := Some f\<rparr>)
             else Inl ''Error opening error file'')
      else redirect_loop open_ok rest (plan\<lparr>ep_args := ep_args plan @ [a]\<rparr>))"

text \<open>
  The child connects the files, runs \<^verbatim>\<open>execvp(args[0], args)\<close>, and the parent waits.
  Without an argument \<^verbatim>\<open>args[0]\<close> is NULL.
\<close>

datatype exec_res = Exec_Error string | Exec_Null | Exec_Run exec_plan

definition empty_plan :: exec_plan where
  "empty_plan = \<lparr>ep_args = [], ep_in = None, ep_out = None, ep_err = None\<rparr>"

definition execute_command_main :: "(string \<Rightarrow> open_mode \<Rightarrow> bool) \<Rightarrow> string list \<Rightarrow> exec_res" where
  "execute_command_main open_ok argv =
     (case redirect_loop open_ok argv empty_plan of
        Inl msg \<Rightarrow> Exec_Error msg
      | Inr plan \<Rightarrow> if ep_args plan = [] then Exec_Null else Exec_Run plan)"

section \<open>Pipes\<close>

datatype pipe_res = Pipe_Usage | Pipe_Misplaced | Pipe_Run exec_res exec_res

text \<open>The first \<^verbatim>\<open>|\<close>, or -1.\<close>

fun pipe_index_from :: "int \<Rightarrow> string list \<Rightarrow> int" where
  "pipe_index_from i [] = -1"
| "pipe_index_from i (a # as) = (if a = ''|'' then i else pipe_index_from (i + 1) as)"

definition pipCmd :: "(string \<Rightarrow> open_mode \<Rightarrow> bool) \<Rightarrow> string list \<Rightarrow> pipe_res" where
  "pipCmd open_ok argv =
     (if length argv < 3 then Pipe_Usage
      else let pipe_index = pipe_index_from 0 argv in
        if pipe_index = -1 \<or> pipe_index = 0 \<or> pipe_index = int (length argv) - 1 then Pipe_Misplaced
        else Pipe_Run (execute_command_main open_ok (take (nat pipe_index) argv))
                      (execute_command_main open_ok (drop (nat pipe_index + 1) argv)))"

section \<open>The main loop\<close>

definition print_help :: "sh_out list" where
  "print_help =
     [Out ''Supported commands are:'',
      Out ''1- pwdlq = print working directory'',
      Out ''2- echolq = print a user input string'',
      Out ''3- cplq = copy a file to another file'',
      Out ''4- mvlq = move a file to another dir'',
      Out ''5- cd = change the current working dir'',
      Out ''6- type = print the type of the command (internal, external, unsupported)'',
      Out ''7- envir = print all the enviroment variable'',
      Out ''8- freelq = information about the system's memory usage'',
      Out ''9- uptimelq = shows how long the system has been running and the time spent in the idle process.'',
      Out ''10- exitlq = quit the shell'',
      Out ''11- help = print all supported commands'',
      Out ''12- external commands = type names directly'']"

text \<open>What the system provides.\<close>

record lq_env =
  lq_canon :: canon
  lq_io :: io
  lq_x_ok :: "string \<Rightarrow> bool"
  lq_open_ok :: "string \<Rightarrow> open_mode \<Rightarrow> bool"
  lq_uptime :: uptime_file
  lq_parse_uptime :: "string \<Rightarrow> (int \<times> int) option"
  lq_meminfo :: "string option"
  lq_read_sizes :: "nat list"

datatype sh_event = Ev_Print "sh_out list" | Ev_Exec exec_res | Ev_Pipe pipe_res

text \<open>
  One command: what happens, the new state, and whether the loop goes on. A command line without
  a word would compare NULL.
\<close>

definition run_command :: "lq_env \<Rightarrow> string list \<Rightarrow> shell \<Rightarrow> (sh_event list \<times> shell \<times> bool) c_res" where
  "run_command env args sh =
     (case args of
        [] \<Rightarrow> Inl Null_Pointer
      | c # _ \<Rightarrow>
          if strcmp c ''pwdlq'' = 0 then Inr ([Ev_Print (pwd_command sh)], sh, True)
          else if strcmp c ''echolq'' = 0 then Inr ([Ev_Print (echo_command args)], sh, True)
          else if strcmp c ''cplq'' = 0 then
            (case cp_command (lq_canon env) (lq_io env) args sh of (outs, sh') \<Rightarrow>
               Inr ([Ev_Print outs], sh', True))
          else if strcmp c ''mvlq'' = 0 then
            (case mv_command (lq_canon env) (lq_io env) args sh of (_, outs, sh') \<Rightarrow>
               Inr ([Ev_Print outs], sh', True))
          else if strcmp c ''exitlq'' = 0 then Inr ([Ev_Print [Out ''goodbye'']], sh, False)
          else if strcmp c ''cd'' = 0 then
            (case cd_command (lq_canon env) args sh of (outs, sh') \<Rightarrow> Inr ([Ev_Print outs], sh', True))
          else if strcmp c ''help'' = 0 then Inr ([Ev_Print print_help], sh, True)
          else if strcmp c ''type'' = 0 then
            Inr ([Ev_Print (type_command (lq_x_ok env) sh (if length args > 1 then Some (args ! 1) else None))],
                 sh, True)
          else if strcmp c ''envir'' = 0 then Inr ([Ev_Print (env_command sh)], sh, True)
          else if strcmp c ''uptimelq'' = 0 then
            Inr ([Ev_Print (uptime_command (lq_uptime env) (lq_parse_uptime env))], sh, True)
          else if strcmp c ''freelq'' = 0 then
            c_bind (free_command (lq_read_sizes env) (lq_meminfo env)) (\<lambda>outs. Inr ([Ev_Print outs], sh, True))
          else if list_ex (\<lambda>a. strcmp a ''|'' = 0) args then Inr ([Ev_Pipe (pipCmd (lq_open_ok env) args)], sh, True)
          else Inr ([Ev_Exec (execute_command_main (lq_open_ok env) args)], sh, True))"

text \<open>
  \<^verbatim>\<open>getline(&input, (size_t *)&input_size, stdin)\<close>: a buffer of \<open>cap\<close> bytes, and the
  \<open>n\<close> bytes that \<^verbatim>\<open>getline\<close> takes it for. A line that does not fit into \<open>n\<close> bytes gets a larger
  buffer, any other is stored in the one there is.

  \<open>n\<close> are eight bytes, \<^verbatim>\<open>input_size\<close> is an \<^verbatim>\<open>int\<close> of four. In C the access itself is out of
  bounds: that is the buffer \<open>None\<close>. A compiled program reads and writes the word that happens to lie
  behind \<^verbatim>\<open>input_size\<close>; with \<open>Some behind\<close> it is that word, used by nothing else, from the
  start on.
\<close>

definition getline :: "nat \<times> nat \<Rightarrow> string \<Rightarrow> (nat \<times> nat) c_res" where
  "getline buf line =
     (case buf of (cap, n) \<Rightarrow>
        let needed = length line + 1 in
        if n < needed then Inr (max (2 * n) needed, max (2 * n) needed)
        else if cap < needed then Inl Out_Of_Bounds
        else Inr (cap, n))"

definition input_buffer :: "nat option \<Rightarrow> (nat \<times> nat) option" where
  "input_buffer behind =
     map_option (\<lambda>word. (INITIAL_INPUT_SIZE, INITIAL_INPUT_SIZE + 2 ^ 32 * word)) behind"

text \<open>
  The loop over the lines \<^verbatim>\<open>getline\<close> returns, to the end of the input or
  \<^verbatim>\<open>exitlq\<close>.
\<close>

fun shell_loop :: "lq_env \<Rightarrow> (nat \<times> nat) option \<Rightarrow> string list \<Rightarrow> shell \<Rightarrow> (sh_event list \<times> shell) c_res" where
  "shell_loop env None lines sh = Inl Out_Of_Bounds"
| "shell_loop env (Some buf) [] sh = Inr ([], sh)"
| "shell_loop env (Some buf) (input # lines) sh =
     c_bind (getline buf input) (\<lambda>buf'.
     if take 1 input = ''\<newline>'' \<or> take 1 input = '' '' then shell_loop env (Some buf') lines sh
     else c_bind (lq_parse_input input) (\<lambda>args.
          c_bind (run_command env args sh) (\<lambda>(evs, sh', go).
          if go then c_bind (shell_loop env (Some buf') lines sh') (\<lambda>(evs', sh''). Inr (evs @ evs', sh''))
          else Inr (evs, sh'))))"

definition shell_main :: "lq_env \<Rightarrow> nat option \<Rightarrow> string list \<Rightarrow> shell \<Rightarrow> (sh_event list \<times> shell) c_res" where
  "shell_main env behind lines sh = shell_loop env (input_buffer behind) lines sh"

section \<open>Splitting a line\<close>

text \<open>The words of a text: what is left of the pieces between delimiters without the empty ones.\<close>

fun split_on :: "char set \<Rightarrow> string \<Rightarrow> string \<Rightarrow> string list" where
  "split_on ds acc [] = [acc]"
| "split_on ds acc (c # cs) = (if c \<in> ds then acc # split_on ds [] cs else split_on ds (acc @ [c]) cs)"

definition words :: "string \<Rightarrow> string list" where
  "words s = filter (\<lambda>w. w \<noteq> []) (split_on (set line_delims) [] s)"

lemma split_on_word:
  "set w \<inter> ds = {} \<Longrightarrow> split_on ds acc (w @ s) = split_on ds (acc @ w) s"
  by (induction w arbitrary: acc) auto

lemma words_skip: "c \<in> set line_delims \<Longrightarrow> words (c # s) = words s"
  by (simp add: words_def)

lemma words_dropWhile: "words (dropWhile (\<lambda>c. c \<in> set line_delims) s) = words s"
  by (induction s) (simp_all add: words_skip)

lemma strtok_words:
  "words s = (case strtok line_delims s of None \<Rightarrow> [] | Some (t, rest) \<Rightarrow> t # words rest)"
proof -
  let ?D = "set line_delims"
  let ?s = "dropWhile (\<lambda>c. c \<in> ?D) s"
  show ?thesis
  proof (cases ?s)
    case Nil
    moreover have "words [] = []" by (simp add: words_def)
    ultimately have "words s = []" using words_dropWhile [of s, symmetric] by (simp only: Nil)
    then show ?thesis by (simp only: strtok_def Nil list.case option.case)
  next
    case (Cons c cs)
    let ?t = "takeWhile (\<lambda>c. c \<notin> ?D) (c # cs)" and ?r = "dropWhile (\<lambda>c. c \<notin> ?D) (c # cs)"
    have c: "c \<notin> ?D" using Cons by (metis dropWhile_eq_Cons_conv)
    have k: "strtok line_delims s = Some (?t, drop 1 ?r)" using Cons by (simp add: strtok_def)
    have t: "set ?t \<inter> ?D = {}" "?t \<noteq> []" using c by (auto dest: set_takeWhileD)
    have "split_on ?D [] (?t @ ?r) = split_on ?D ?t ?r" using split_on_word [OF t(1), of "[]" ?r] by simp
    moreover have "filter (\<lambda>w. w \<noteq> []) (split_on ?D ?t ?r) = ?t # words (drop 1 ?r)"
    proof (cases ?r)
      case Nil
      then show ?thesis using t(2) by (simp add: words_def)
    next
      case (Cons d ds)
      then have "d \<in> ?D" by (metis (mono_tags) hd_dropWhile list.discI list.sel(1))
      with Cons t(2) show ?thesis by (simp add: words_def)
    qed
    moreover have "?t @ ?r = ?s" using Cons by (simp only: takeWhile_dropWhile_id)
    ultimately have "words ?s = ?t # words (drop 1 ?r)" by (simp add: words_def)
    then show ?thesis using k words_dropWhile [of s] by simp
  qed
qed

text \<open>The array is just large enough when its size is the number of tokens rounded up to tens.\<close>

lemma token_loop_words:
  assumes "sz = (if args = [] then 10 else 10 * ((length args + 9) div 10))"
  shows "token_loop sz args s =
    (let ws = args @ words s in
     if ws \<noteq> [] \<and> length ws mod 10 = 0 then Inl Out_Of_Bounds else Inr ws)"
  using assms
proof (induction sz args s rule: token_loop.induct)
  case (1 sz args s)
  have fits: "length args < sz \<longleftrightarrow> args = [] \<or> length args mod 10 \<noteq> 0"
    unfolding 1(2) by (cases "args = []") (auto, presburger+)
  show ?case
  proof (cases "strtok line_delims s")
    case None
    then have "words s = []" using strtok_words [of s] by simp
    with None fits show ?thesis by (subst token_loop.simps) (auto simp: Let_def)
  next
    case (Some tr)
    obtain t r where tr: "tr = (t, r)" by fastforce
    let ?sz = "if length args \<ge> sz then sz + ARG_INCREMENT else sz"
    have w: "words s = t # words r" using strtok_words [of s] Some tr by simp
    have "?sz = (if args @ [t] = [] then 10 else 10 * ((length (args @ [t]) + 9) div 10))"
      unfolding 1(2) ARG_INCREMENT_def by (cases "args = []") (simp, simp, presburger)
    from 1(1) [OF Some tr [symmetric] this] have "token_loop ?sz (args @ [t]) r =
        (let ws = (args @ [t]) @ words r in
         if ws \<noteq> [] \<and> length ws mod 10 = 0 then Inl Out_Of_Bounds else Inr ws)" .
    then show ?thesis
      using Some tr w by (subst token_loop.simps) simp
  qed
qed

text \<open>C13: The arguments of a line are its words, in order, for every line, except that the NULL
  behind them is stored outside the array exactly when their number is a multiple of ten.\<close>

theorem parse_input_words:
  "lq_parse_input line =
     (let ws = words (cstr line) in
      if ws \<noteq> [] \<and> length ws mod 10 = 0 then Inl Out_Of_Bounds else Inr ws)"
  using token_loop_words [of INITIAL_ARG_SIZE "[]" "cstr line"]
  by (simp add: lq_parse_input_def INITIAL_ARG_SIZE_def)

lemma lq_parse_words: "lq_parse_input line = Inr args \<Longrightarrow> args = words (cstr line)"
  using token_loop_words [of INITIAL_ARG_SIZE "[]" "cstr line"]
  by (auto simp: lq_parse_input_def INITIAL_ARG_SIZE_def Let_def split: if_splits)

lemma lq_parse_total:
  "length (words (cstr line)) mod 10 \<noteq> 0 \<Longrightarrow> lq_parse_input line = Inr (words (cstr line))"
  using token_loop_words [of INITIAL_ARG_SIZE "[]" "cstr line"]
  by (auto simp: lq_parse_input_def INITIAL_ARG_SIZE_def Let_def)

section \<open>Redirections\<close>

text \<open>A command line as it is meant: words and redirections.\<close>

datatype cmd_item = Word string | From_File string | To_File string | Append_File string | Errors_To string

fun item_words :: "cmd_item \<Rightarrow> string list" where
  "item_words (Word w) = [w]"
| "item_words (From_File f) = [''<'', f]"
| "item_words (To_File f) = [''>'', f]"
| "item_words (Append_File f) = [''>>'', f]"
| "item_words (Errors_To f) = [''2>'', f]"

fun meaning :: "cmd_item list \<Rightarrow> exec_plan \<Rightarrow> exec_plan" where
  "meaning [] plan = plan"
| "meaning (Word w # is) plan = meaning is (plan\<lparr>ep_args := ep_args plan @ [w]\<rparr>)"
| "meaning (From_File f # is) plan = meaning is (plan\<lparr>ep_in := Some f\<rparr>)"
| "meaning (To_File f # is) plan = meaning is (plan\<lparr>ep_out := Some (f, Truncate)\<rparr>)"
| "meaning (Append_File f # is) plan = meaning is (plan\<lparr>ep_out := Some (f, Append)\<rparr>)"
| "meaning (Errors_To f # is) plan = meaning is (plan\<lparr>ep_err := Some f\<rparr>)"

definition plain_word :: "cmd_item \<Rightarrow> bool" where
  "plain_word it \<longleftrightarrow> (case it of Word w \<Rightarrow> w \<notin> {''<'', ''>'', ''>>'', ''2>''} | _ \<Rightarrow> True)"

definition n_words :: "cmd_item list \<Rightarrow> nat" where
  "n_words its = length (filter (\<lambda>it. case it of Word _ \<Rightarrow> True | _ \<Rightarrow> False) its)"

lemma redirect_loop_meaning:
  assumes "\<And>f m. open_ok f m" and "list_all plain_word its" and "length (ep_args plan) + n_words its < MAX_ARGS - 1"
  shows "redirect_loop open_ok (concat (map item_words its)) plan = Inr (meaning its plan)"
  using assms(2,3)
proof (induction its arbitrary: plan)
  case (Cons it its)
  then show ?case
    by (cases it) (auto simp: assms(1) plain_word_def n_words_def)
qed simp

text \<open>C12: A command line written from words and redirections is run with exactly those: the words
  in order as its arguments, the last file given for each stream, appended to or cut as the operator
  says. (Fewer than 63 words, files that can be opened.)\<close>

theorem redirections_roundtrip:
  assumes "\<forall>f m. open_ok f m" and "list_all plain_word its" and "n_words its < 63"
    and "ep_args (meaning its empty_plan) \<noteq> []"
  shows "execute_command_main open_ok (concat (map item_words its)) = Exec_Run (meaning its empty_plan)"
  using redirect_loop_meaning [of open_ok its empty_plan] assms
  by (simp add: execute_command_main_def MAX_ARGS_def empty_plan_def)

theorem redirections_roundtrip_witness:
  "execute_command_main (\<lambda>_ _. True) [''sort'', ''<'', ''in'', ''-r'', ''>'', ''a'', ''>>'', ''b''] =
     Exec_Run \<lparr>ep_args = [''sort'', ''-r''], ep_in = Some ''in'', ep_out = Some (''b'', Append), ep_err = None\<rparr>"
  using redirections_roundtrip [of "\<lambda>_ _. True" "[Word ''sort'', From_File ''in'', Word ''-r'', To_File ''a'', Append_File ''b'']"]
  by (simp add: plain_word_def n_words_def empty_plan_def)

section \<open>Pipes and commands\<close>

lemma pipe_index_append:
  "''|'' \<notin> set c1 \<Longrightarrow> pipe_index_from i (c1 @ ''|'' # c2) = i + int (length c1)"
  by (induction c1 arbitrary: i) auto

text \<open>A line with a pipe between two commands is split at the first \<^verbatim>\<open>|\<close>: the left command
  writes into the pipe, the right one reads from it, each with its own redirections. A second
  \<^verbatim>\<open>|\<close> is not split at: it is an argument of the right command.\<close>

theorem pipe_splits_at_first:
  assumes "''|'' \<notin> set c1" and "c1 \<noteq> []" and "c2 \<noteq> []"
  shows "pipCmd open_ok (c1 @ ''|'' # c2) =
    Pipe_Run (execute_command_main open_ok c1) (execute_command_main open_ok c2)"
proof -
  have "2 \<le> length c1 + length c2" using assms(2,3) by (cases c1; cases c2) auto
  moreover have "drop (nat (int (length c1)) + 1) (c1 @ ''|'' # c2) = c2" by simp
  ultimately show ?thesis
    using assms pipe_index_append [OF assms(1), of 0 c2] by (simp add: pipCmd_def Let_def)
qed

theorem pipe_splits_at_first_witness:
  "pipCmd (\<lambda>_ _. True) [''ls'', ''|'', ''sort'', ''|'', ''wc''] =
     Pipe_Run (execute_command_main (\<lambda>_ _. True) [''ls''])
       (Exec_Run \<lparr>ep_args = [''sort'', ''|'', ''wc''], ep_in = None, ep_out = None, ep_err = None\<rparr>)"
proof -
  have "execute_command_main (\<lambda>_ _. True) [''sort'', ''|'', ''wc''] =
      Exec_Run \<lparr>ep_args = [''sort'', ''|'', ''wc''], ep_in = None, ep_out = None, ep_err = None\<rparr>"
    by (simp add: execute_command_main_def empty_plan_def MAX_ARGS_def)
  then show ?thesis
    using pipe_splits_at_first [of "[''ls'']" "[''sort'', ''|'', ''wc'']" "\<lambda>_ _. True"] by simp
qed


lemma run_command_external:
  "c \<notin> set builtins \<Longrightarrow> run_command env (c # rest) sh =
   (if list_ex (\<lambda>a. strcmp a ''|'' = 0) (c # rest) then Inr ([Ev_Pipe (pipCmd (lq_open_ok env) (c # rest))], sh, True)
    else Inr ([Ev_Exec (execute_command_main (lq_open_ok env) (c # rest))], sh, True))"
  by (simp add: run_command_def builtins_def)

text \<open>A built-in command prints and never starts a program; only \<^verbatim>\<open>freelq\<close> can end the shell
  with an error.\<close>

lemma run_command_builtin:
  assumes "c \<in> set builtins"
  shows "(\<exists>outs sh' go. run_command env (c # rest) sh = Inr ([Ev_Print outs], sh', go)) \<or>
    c = ''freelq'' \<and> (\<exists>e. free_command (lq_read_sizes env) (lq_meminfo env) = Inl e \<and>
      run_command env (c # rest) sh = Inl e)"
proof -
  obtain o1 s1 where cp: "cp_command (lq_canon env) (lq_io env) (c # rest) sh = (o1, s1)" by fastforce
  obtain i2 o2 s2 where mv: "mv_command (lq_canon env) (lq_io env) (c # rest) sh = (i2, o2, s2)"
    using prod_cases3 by blast
  obtain o3 s3 where cd: "cd_command (lq_canon env) (c # rest) sh = (o3, s3)" by fastforce
  have "c = ''freelq'' \<or> c = ''cplq'' \<or> c = ''mvlq'' \<or> c = ''cd'' \<or>
      c \<in> {''envir'', ''exitlq'', ''type'', ''help'', ''echolq'', ''pwdlq'', ''uptimelq''}"
    using assms by (auto simp: builtins_def)
  then show ?thesis
  proof (elim disjE)
    assume c: "c = ''freelq''"
    show ?thesis
      by (cases "free_command (lq_read_sizes env) (lq_meminfo env)") (auto simp: run_command_def c)
  next
    assume c: "c = ''cplq''" show ?thesis using cp by (auto simp: run_command_def c)
  next
    assume c: "c = ''mvlq''" show ?thesis using mv by (auto simp: run_command_def c)
  next
    assume c: "c = ''cd''" show ?thesis using cd by (auto simp: run_command_def c)
  next
    assume "c \<in> {''envir'', ''exitlq'', ''type'', ''help'', ''echolq'', ''pwdlq'', ''uptimelq''}"
    then show ?thesis by (elim insertE emptyE) (auto simp: run_command_def)
  qed
qed



definition sample_env :: lq_env where
  "sample_env = \<lparr>lq_canon = abs_path, lq_io = good_io, lq_x_ok = (\<lambda>p. p = ''/bin/ls''),
     lq_open_ok = (\<lambda>_ _. True), lq_uptime = Uptime_No_Open, lq_parse_uptime = (\<lambda>_. None),
     lq_meminfo = Some meminfo_text, lq_read_sizes = replicate 100 7\<rparr>"


section \<open>The session\<close>

lemma strtok_line_start:
  "s \<noteq> [] \<Longrightarrow> hd s \<notin> set line_delims \<Longrightarrow> words s \<noteq> []"
  using strtok_words [of s] by (cases s) (auto simp: strtok_def)

lemma run_command_returns:
  assumes "args \<noteq> []" and "\<exists>info. gather_meminfo (lq_read_sizes env) (lq_meminfo env) = Inr info"
  shows "\<exists>r. run_command env args sh = Inr r"
proof -
  obtain outs where "free_command (lq_read_sizes env) (lq_meminfo env) = Inr outs"
    using assms(2) by (auto simp: free_command_def Let_def)
  note free = this
  obtain c rest where args: "args = c # rest" using assms(1) by (cases args) auto
  show ?thesis
  proof (cases "c \<in> set builtins")
    case True
    with run_command_builtin [OF True, of env rest sh] free show ?thesis by (auto simp: args)
  next
    case False
    then show ?thesis using run_command_external [OF False, of env rest sh] by (auto simp: args)
  qed
qed

lemma getline_fits:
  "0 < c \<Longrightarrow> \<exists>c' > 0. getline (c, c) l = Inr (c', c')"
  by (auto simp: getline_def Let_def)

lemma getline_short: "length l < c \<Longrightarrow> c \<le> n \<Longrightarrow> getline (c, n) l = Inr (c, n)"
  by (simp add: getline_def)

definition good_line :: "string \<Rightarrow> bool" where
  "good_line l \<longleftrightarrow> l \<noteq> [] \<and> NUL \<notin> set l \<and> (words l = [] \<or> length (words l) mod 10 \<noteq> 0)"

text \<open>The line is run, in whatever state the shell is.\<close>

lemma good_line_runs:
  assumes "good_line l" and "\<exists>info. gather_meminfo (lq_read_sizes env) (lq_meminfo env) = Inr info"
    and "\<not> (take 1 l = ''\<newline>'' \<or> take 1 l = '' '')"
  shows "\<exists>r. c_bind (lq_parse_input l) (\<lambda>args. run_command env args sh) = Inr r"
proof -
  from assms(1) have l: "l \<noteq> []" "cstr l = l" by (simp_all add: cstr_self good_line_def)
  with assms(3) have "hd l \<notin> set line_delims" by (cases l) (auto simp: line_delims_def)
  with l have w: "words l \<noteq> []" by (simp add: strtok_line_start)
  with assms(1) l have "lq_parse_input l = Inr (words l)"
    using lq_parse_total [of l] by (simp add: good_line_def)
  with run_command_returns [OF w assms(2), of sh] show ?thesis by simp
qed

lemma shell_loop_returns:
  assumes "list_all good_line lines" and "\<exists>info. gather_meminfo (lq_read_sizes env) (lq_meminfo env) = Inr info"
    and "0 < c"
  shows "\<exists>r. shell_loop env (Some (c, c)) lines sh = Inr r"
  using assms(1,3)
proof (induction lines arbitrary: c sh)
  case (Cons l ls)
  obtain c' where c': "0 < c'" "getline (c, c) l = Inr (c', c')" using getline_fits [OF Cons.prems(2)] by blast
  have IH: "\<exists>r. shell_loop env (Some (c', c')) ls s = Inr r" for s
    using Cons.IH [OF _ c'(1)] Cons.prems(1) by simp
  show ?case
  proof (cases "take 1 l = ''\<newline>'' \<or> take 1 l = '' ''")
    case True
    with IH [of sh] c'(2) show ?thesis by simp
  next
    case False
    have "good_line l" using Cons.prems(1) by simp
    from good_line_runs [OF this assms(2) False, of sh] obtain args r where
      "lq_parse_input l = Inr args" "run_command env args sh = Inr r" by (auto simp: c_bind_Inr_iff)
    moreover obtain evs sh1 go where "r = (evs, sh1, go)" by (metis prod.exhaust)
    ultimately show ?thesis using False c'(2) IH [of sh1] by auto
  qed
qed simp

lemma shell_loop_short_lines:
  "list_all (\<lambda>l. length l < c) lines \<Longrightarrow> c \<le> n \<Longrightarrow>
   shell_loop env (Some (c, n)) lines sh = shell_loop env (Some (c, c)) lines sh"
proof (induction lines arbitrary: sh)
  case (Cons l ls)
  then have "shell_loop env (Some (c, n)) ls = shell_loop env (Some (c, c)) ls" by (intro ext) simp
  with Cons.prems show ?case by (simp add: getline_short cong: if_cong)
qed simp

text \<open>C14: Whether a session goes wrong on its own. As C has it, it does at once: \<^verbatim>\<open>getline\<close>
  accesses a \<^verbatim>\<open>size_t\<close> at the address of an \<^verbatim>\<open>int\<close>. As compiled, with a word behind
  \<^verbatim>\<open>input_size\<close> that is 0, it does not, for lines without NUL whose number of words is not a
  multiple of ten, on a system where the memory values can be read: every command is found, nothing
  is stored outside an array, and the shell reaches the end of the input or \<^verbatim>\<open>exitlq\<close>. With any
  other word there it does the same as long as the lines fit into the first buffer, and a first line
  that does not is written behind it.\<close>

theorem shell_session_returns:
  assumes "list_all good_line lines"
    and "\<exists>info. gather_meminfo (lq_read_sizes env) (lq_meminfo env) = Inr info"
  shows "shell_main env None lines sh = Inl Out_Of_Bounds \<and>
    (\<exists>evs sh'. shell_main env (Some 0) lines sh = Inr (evs, sh')) \<and>
    (list_all (\<lambda>l. length l < 100) lines \<longrightarrow>
       shell_main env (Some word) lines sh = shell_main env (Some 0) lines sh) \<and>
    (lines \<noteq> [] \<and> 0 < word \<and> 100 \<le> length (hd lines) \<and> length (hd lines) < 2 ^ 32 \<longrightarrow>
       shell_main env (Some word) lines sh = Inl Out_Of_Bounds)"
proof (intro conjI impI)
  show "\<exists>evs sh'. shell_main env (Some 0) lines sh = Inr (evs, sh')"
    using shell_loop_returns [OF assms, of 100 sh] by (simp add: shell_main_def input_buffer_def INITIAL_INPUT_SIZE_def)
next
  assume "list_all (\<lambda>l. length l < 100) lines"
  then show "shell_main env (Some word) lines sh = shell_main env (Some 0) lines sh"
    using shell_loop_short_lines [of 100 lines "100 + 2 ^ 32 * word"]
    by (simp add: shell_main_def input_buffer_def INITIAL_INPUT_SIZE_def)
next
  assume a: "lines \<noteq> [] \<and> 0 < word \<and> 100 \<le> length (hd lines) \<and> length (hd lines) < 2 ^ 32"
  then obtain l ls where "lines = l # ls" by (cases lines) auto
  moreover have "getline (100, 100 + 2 ^ 32 * word) l = Inl Out_Of_Bounds"
    using a calculation mult_le_mono2 [of 1 word "2 ^ 32"] by (simp add: getline_def Let_def)
  ultimately show "shell_main env (Some word) lines sh = Inl Out_Of_Bounds"
    by (simp add: shell_main_def input_buffer_def INITIAL_INPUT_SIZE_def)
qed (simp add: shell_main_def input_buffer_def)

definition swap_text :: string where
  "swap_text = ''MemTotal: 16 kB'' @ ''\<newline>'' @ ''MemFree: 4'' @ ''\<newline>'' @ ''MemAvailable: 5'' @ ''\<newline>'' @
     ''SwapTotal: 8'' @ ''\<newline>'' @ ''SwapFree: 8'' @ ''\<newline>''"

definition swap_env :: lq_env where
  "swap_env = sample_env\<lparr>lq_meminfo := Some swap_text\<rparr>"

definition sample_session :: "string list" where
  "sample_session = [''cplq a d'' @ ''\<newline>'', ''ls | wc'' @ ''\<newline>'', ''exitlq'' @ ''\<newline>'', ''ls'' @ ''\<newline>'']"

theorem shell_session_returns_witness:
  "(\<exists>evs sh'. shell_main swap_env (Some 0) sample_session home = Inr (evs, sh')) \<and>
   shell_main swap_env (Some 7) sample_session home = shell_main swap_env (Some 0) sample_session home \<and>
   shell_main swap_env (Some 7) [replicate 100 (CHR ''a'')] home = Inl Out_Of_Bounds"
proof -
  have g: "list_all good_line sample_session" "list_all good_line [replicate 100 (CHR ''a'')]"
    "list_all (\<lambda>l. length l < 100) sample_session"
    by code_simp+
  have "(case gather_meminfo (lq_read_sizes swap_env) (lq_meminfo swap_env) of Inr _ \<Rightarrow> True | Inl _ \<Rightarrow> False)"
    by code_simp
  then have m: "\<exists>info. gather_meminfo (lq_read_sizes swap_env) (lq_meminfo swap_env) = Inr info"
    by (simp split: sum.splits)
  from shell_session_returns [OF g(1) m, of home 7] shell_session_returns [OF g(2) m, of home 7] g(3)
  show ?thesis by simp
qed

text \<open>\<^verbatim>\<open>freelq\<close> ends the whole shell, not only the command, on a system without swap
  space (or with all of it in use): the lines after it are not run.\<close>

theorem freelq_ends_shell:
  assumes "read_meminfo_value (lq_read_sizes env) (lq_meminfo env) ''SwapTotal'' = 0 \<or>
    read_meminfo_value (lq_read_sizes env) (lq_meminfo env) ''SwapFree'' = 0"
  shows "shell_main env (Some word) ((''freelq'' @ ''\<newline>'') # lines) sh = Inl Exit_Failure"
proof -
  have "words (cstr (''freelq'' @ ''\<newline>'')) = [''freelq'']" by code_simp
  then have p: "lq_parse_input (''freelq'' @ ''\<newline>'') = Inr [''freelq'']"
    using lq_parse_total [of "''freelq'' @ ''\<newline>''"] by simp
  have "free_command (lq_read_sizes env) (lq_meminfo env) = Inl Exit_Failure"
    using assms by (auto simp: free_command_def gather_meminfo_def Let_def)
  then have "run_command env [''freelq''] sh = Inl Exit_Failure" by (simp add: run_command_def)
  with p show ?thesis by (simp add: shell_main_def input_buffer_def INITIAL_INPUT_SIZE_def getline_def)
qed

theorem freelq_ends_shell_witness:
  "shell_main sample_env (Some 0) [''freelq'' @ ''\<newline>'', ''pwdlq'' @ ''\<newline>''] home = Inl Exit_Failure"
proof -
  have "read_meminfo_value (lq_read_sizes sample_env) (lq_meminfo sample_env) ''SwapTotal'' = 0" by code_simp
  then show ?thesis using freelq_ends_shell [of sample_env 0 "[''pwdlq'' @ ''\<newline>'']" home] by blast
qed

end
