(* ===== verification/Ls.thy ===== *)
theory Ls
  imports Cstdio
begin

text \<open>
  \<^verbatim>\<open>ls_cmd/my_ls.c\<close>: options, reading and sorting a directory, and the three output formats.
  The file system, the user database, \<^verbatim>\<open>strftime\<close> and the terminal are arguments;
  \<^verbatim>\<open>qsort\<close> is an argument of which only the standard's promise is used. Output is the
  string printed.
\<close>

section \<open>Data\<close>

definition MAX_PATH :: nat where "MAX_PATH = 4096"
definition INITIAL_CAPACITY :: nat where "INITIAL_CAPACITY = 64"

record stat =
  st_mode :: "32 word"
  st_nlink :: nat
  st_uid :: nat
  st_gid :: nat
  st_size :: int
  st_ino :: nat
  st_blocks :: int
  st_atime :: int
  st_mtime :: int
  st_ctime :: int

record file_info =
  fi_name :: string
  fi_st :: stat
  fi_linkname :: "string option"

record ls_env =
  le_opendir :: "string \<Rightarrow> string list option"
  le_lstat :: "string \<Rightarrow> stat option"
  le_readlink :: "string \<Rightarrow> string option"
  le_getpwuid :: "nat \<Rightarrow> string option"
  le_getgrgid :: "nat \<Rightarrow> string option"
  le_strftime :: "int \<Rightarrow> string"
  le_ws_col :: nat

section \<open>Comparison\<close>

text \<open>
  The difference of two \<^verbatim>\<open>time_t\<close> is 64 bits wide and returned as an \<^verbatim>\<open>int\<close>.
\<close>

definition compare_name :: "file_info \<Rightarrow> file_info \<Rightarrow> int" where
  "compare_name a b = strcmp (fi_name a) (fi_name b)"

definition compare_mtime :: "file_info \<Rightarrow> file_info \<Rightarrow> int" where
  "compare_mtime a b = wrap32 (st_mtime (fi_st b) - st_mtime (fi_st a))"

definition compare_atime :: "file_info \<Rightarrow> file_info \<Rightarrow> int" where
  "compare_atime a b = wrap32 (st_atime (fi_st b) - st_atime (fi_st a))"

definition compare_ctime :: "file_info \<Rightarrow> file_info \<Rightarrow> int" where
  "compare_ctime a b = wrap32 (st_ctime (fi_st b) - st_ctime (fi_st a))"

section \<open>Options\<close>

datatype ls_opt = Long_Color | Short char | Bad_Option

definition FLAG_L :: "32 word" where "FLAG_L = 0x001"
definition FLAG_A :: "32 word" where "FLAG_A = 0x002"
definition FLAG_T :: "32 word" where "FLAG_T = 0x004"
definition FLAG_U :: "32 word" where "FLAG_U = 0x008"
definition FLAG_C :: "32 word" where "FLAG_C = 0x010"
definition FLAG_I :: "32 word" where "FLAG_I = 0x020"
definition FLAG_F :: "32 word" where "FLAG_F = 0x040"
definition FLAG_D :: "32 word" where "FLAG_D = 0x080"
definition FLAG_1 :: "32 word" where "FLAG_1 = 0x100"

lemmas flag_defs = FLAG_L_def FLAG_A_def FLAG_T_def FLAG_U_def FLAG_C_def FLAG_I_def FLAG_F_def
  FLAG_D_def FLAG_1_def

text \<open>\<^verbatim>\<open>flags & bit\<close>\<close>

definition flag_set :: "32 word \<Rightarrow> 32 word \<Rightarrow> bool" where
  "flag_set flags b \<longleftrightarrow> flags AND b \<noteq> 0"

text \<open>
  \<^verbatim>\<open>getopt_long\<close> with \<^verbatim>\<open>"latucifd1"\<close> and the long option \<^verbatim>\<open>color\<close>: the options
  in the order it returns them and the operands, which it moves behind them. A long option may be
  abbreviated.
\<close>

definition short_opts :: string where "short_opts = ''latucifd1''"

definition long_opt :: "string \<Rightarrow> ls_opt" where
  "long_opt name = (if name \<noteq> [] \<and> take (length name) ''color'' = name then Long_Color else Bad_Option)"

fun getopt_args :: "string list \<Rightarrow> ls_opt list \<times> string list" where
  "getopt_args [] = ([], [])"
| "getopt_args (a # as) =
     (if a = ''--'' then ([], as)
      else case getopt_args as of (os, rs) \<Rightarrow>
        if take 2 a = ''--'' then (long_opt (drop 2 a) # os, rs)
        else if take 1 a = ''-'' \<and> a \<noteq> ''-''
        then (map (\<lambda>c. if c \<in> set short_opts then Short c else Bad_Option) (drop 1 a) @ os, rs)
        else (os, a # rs))"

text \<open>
  The \<^verbatim>\<open>switch\<close>: the new flags and \<^verbatim>\<open>color\<close>; \<open>None\<close> is the usage message and
  \<^verbatim>\<open>exit\<close>. The case of \<^verbatim>\<open>'C'\<close> is there, though \<^verbatim>\<open>getopt_long\<close> never returns it.
\<close>

fun opt_step :: "ls_opt \<Rightarrow> 32 word \<Rightarrow> bool \<Rightarrow> (32 word \<times> bool) option" where
  "opt_step Long_Color flags color = Some (flags, True)"
| "opt_step Bad_Option flags color = None"
| "opt_step (Short c) flags color =
     (if c = CHR ''l'' then Some (flags OR FLAG_L, color)
      else if c = CHR ''a'' then Some (flags OR FLAG_A, color)
      else if c = CHR ''t'' then Some (flags OR FLAG_T, color)
      else if c = CHR ''u'' then Some (flags OR FLAG_U, color)
      else if c = CHR ''c'' then Some (flags OR FLAG_C, color)
      else if c = CHR ''i'' then Some (flags OR FLAG_I, color)
      else if c = CHR ''f'' then Some (flags OR FLAG_F, \<not> color)
      else if c = CHR ''d'' then Some (flags OR FLAG_D, color)
      else if c = CHR ''1'' then Some (flags OR FLAG_1, color)
      else if c = CHR ''C'' then Some (flags, True)
      else None)"

fun opt_loop :: "ls_opt list \<Rightarrow> 32 word \<Rightarrow> bool \<Rightarrow> (32 word \<times> bool) option" where
  "opt_loop [] flags color = Some (flags, color)"
| "opt_loop (x # xs) flags color =
     (case opt_step x flags color of None \<Rightarrow> None | Some (flags', color') \<Rightarrow> opt_loop xs flags' color')"

text \<open>
  The loop that splits \<^verbatim>\<open>path\<close> at its slashes into \<^verbatim>\<open>currPath\<close>, an array of
  \<open>capacity\<close> pointers that is doubled when it is full. The buffer is the caller's and has not been
  written yet, so its contents are a parameter; without a NUL in it \<^verbatim>\<open>strtok\<close> runs out of
  it. Nothing reads \<^verbatim>\<open>currPath\<close>.
\<close>

function split_loop :: "nat \<Rightarrow> string list \<Rightarrow> string \<Rightarrow> (string list \<times> nat) c_res" where
  "split_loop capacity dirs s =
     (case strtok ''/'' s of
        None \<Rightarrow> Inr (dirs, capacity)
      | Some (token, rest) \<Rightarrow>
          let capacity' = (if length dirs \<ge> capacity then capacity * 2 else capacity) in
          if length dirs \<ge> capacity' then Inl Out_Of_Bounds
          else split_loop capacity' (dirs @ [token]) rest)"
  by pat_completeness auto
termination
  by (relation "measure (\<lambda>(_, _, s). length s)") (auto dest: strtok_shorter)

declare split_loop.simps [simp del]

definition split_path :: "char list \<Rightarrow> (string list \<times> nat) c_res" where
  "split_path buf = (if terminated buf then split_loop INITIAL_CAPACITY [] (cstr buf) else Inl Out_Of_Bounds)"

text \<open>\<^verbatim>\<open>parse_input\<close>: flags, color, the path and the further operands.\<close>

definition parse_input :: "char list \<Rightarrow> string list \<Rightarrow> (32 word \<times> bool \<times> string \<times> string list) c_res" where
  "parse_input buf args =
     c_bind (split_path buf) (\<lambda>_.
     (case getopt_args args of (opts, operands) \<Rightarrow>
      (case opt_loop opts 0 False of
         None \<Rightarrow> Inl Exit_Failure
       | Some (flags, color) \<Rightarrow>
           (case operands of
              [] \<Rightarrow> Inr (flags, color, ''.'', [])
            | p # ps \<Rightarrow> Inr (flags, color, take (MAX_PATH - 1) p, ps)))))"

section \<open>Reading a directory\<close>

definition S_IFMT :: "32 word" where "S_IFMT = 0xF000"

definition S_ISREG :: "32 word \<Rightarrow> bool" where "S_ISREG m \<longleftrightarrow> m AND S_IFMT = 0x8000"
definition S_ISDIR :: "32 word \<Rightarrow> bool" where "S_ISDIR m \<longleftrightarrow> m AND S_IFMT = 0x4000"
definition S_ISLNK :: "32 word \<Rightarrow> bool" where "S_ISLNK m \<longleftrightarrow> m AND S_IFMT = 0xA000"
definition S_ISCHR :: "32 word \<Rightarrow> bool" where "S_ISCHR m \<longleftrightarrow> m AND S_IFMT = 0x2000"
definition S_ISBLK :: "32 word \<Rightarrow> bool" where "S_ISBLK m \<longleftrightarrow> m AND S_IFMT = 0x6000"
definition S_ISFIFO :: "32 word \<Rightarrow> bool" where "S_ISFIFO m \<longleftrightarrow> m AND S_IFMT = 0x1000"
definition S_ISSOCK :: "32 word \<Rightarrow> bool" where "S_ISSOCK m \<longleftrightarrow> m AND S_IFMT = 0xC000"

lemmas s_is_defs = S_ISREG_def S_ISDIR_def S_ISLNK_def S_ISCHR_def S_ISBLK_def S_ISFIFO_def S_ISSOCK_def S_IFMT_def

definition full_path :: "string \<Rightarrow> string \<Rightarrow> string" where
  "full_path path name = take (MAX_PATH - 1) (path @ ''/'' @ name)"

definition link_text :: "ls_env \<Rightarrow> string \<Rightarrow> stat \<Rightarrow> string option" where
  "link_text env p st =
     (if S_ISLNK (st_mode st)
      then Some (case le_readlink env p of Some t \<Rightarrow> take (MAX_PATH - 1) t | None \<Rightarrow> [])
      else None)"

text \<open>
  The \<^verbatim>\<open>readdir\<close> loop: the array is the files stored so far, of \<open>capacity\<close> elements;
  it is doubled when it is full, and a store behind its end is \<open>Out_Of_Bounds\<close>. (Memory is
  taken to be there.)
\<close>

fun readdir_loop :: "ls_env \<Rightarrow> string \<Rightarrow> 32 word \<Rightarrow> string list \<Rightarrow> file_info list \<Rightarrow> nat \<Rightarrow>
    (file_info list \<times> nat) c_res" where
  "readdir_loop env path flags [] files capacity = Inr (files, capacity)"
| "readdir_loop env path flags (d_name # names) files capacity =
     (let flags' = (if flag_set flags FLAG_F then flags OR FLAG_A else flags) in
      if \<not> flag_set flags' FLAG_A \<and> take 1 d_name = ''.'' then readdir_loop env path flags' names files capacity
      else
        let capacity' = (if length files \<ge> capacity then capacity * 2 else capacity) in
        if length files \<ge> capacity' then Inl Out_Of_Bounds
        else (case le_lstat env (full_path path d_name) of
                None \<Rightarrow> readdir_loop env path flags' names files capacity'
              | Some st \<Rightarrow>
                  readdir_loop env path flags' names
                    (files @ [\<lparr>fi_name = d_name, fi_st = st,
                               fi_linkname = link_text env (full_path path d_name) st\<rparr>]) capacity'))"

definition sort_files :: "((file_info \<Rightarrow> file_info \<Rightarrow> int) \<Rightarrow> file_info list \<Rightarrow> file_info list) \<Rightarrow> 32 word \<Rightarrow>
    file_info list \<Rightarrow> file_info list" where
  "sort_files qsort flags files =
     (if \<not> flag_set flags FLAG_F then
        if flag_set flags FLAG_T then
          if flag_set flags FLAG_U then qsort compare_atime files
          else if flag_set flags FLAG_C then qsort compare_ctime files
          else qsort compare_mtime files
        else if flag_set flags FLAG_U \<and> \<not> flag_set flags FLAG_L then qsort compare_atime files
        else if flag_set flags FLAG_C \<and> \<not> flag_set flags FLAG_L then qsort compare_ctime files
        else if flag_set flags FLAG_L then qsort compare_name files
        else files
      else files)"

text \<open>\<open>None\<close> is the result -1.\<close>

definition process_and_sort :: "((file_info \<Rightarrow> file_info \<Rightarrow> int) \<Rightarrow> file_info list \<Rightarrow> file_info list) \<Rightarrow> ls_env \<Rightarrow>
    string \<Rightarrow> 32 word \<Rightarrow> file_info list option c_res" where
  "process_and_sort qsort env path flags =
     (case le_opendir env path of
        None \<Rightarrow> Inr None
      | Some names \<Rightarrow>
          c_bind (readdir_loop env path flags names [] INITIAL_CAPACITY) (\<lambda>(files, capacity).
            if flag_set flags FLAG_D then
              (case le_lstat env path of
                 None \<Rightarrow> Inr None
               | Some st \<Rightarrow> Inr (Some [\<lparr>fi_name = path, fi_st = st, fi_linkname = None\<rparr>]))
            else Inr (Some (sort_files qsort flags files))))"

section \<open>Modes\<close>

definition get_file_type :: "32 word \<Rightarrow> char" where
  "get_file_type mode =
     (if S_ISREG mode then CHR ''-'' else if S_ISDIR mode then CHR ''d'' else if S_ISLNK mode then CHR ''l''
      else if S_ISCHR mode then CHR ''c'' else if S_ISBLK mode then CHR ''b''
      else if S_ISFIFO mode then CHR ''p'' else if S_ISSOCK mode then CHR ''s'' else CHR ''?'')"

definition rwx :: "string list" where
  "rwx = [''---'', ''--x'', ''-w-'', ''-wx'', ''r--'', ''r-x'', ''rw-'', ''rwx'']"

definition S_ISUID :: "32 word" where "S_ISUID = 0x800"
definition S_ISGID :: "32 word" where "S_ISGID = 0x400"
definition S_STICKY :: "32 word" where "S_STICKY = 0x200"
definition S_IXUSR :: "32 word" where "S_IXUSR = 0x40"
definition S_IXGRP :: "32 word" where "S_IXGRP = 0x8"
definition S_IXOTH :: "32 word" where "S_IXOTH = 0x1"

lemmas perm_bits = S_ISUID_def S_ISGID_def S_STICKY_def S_IXUSR_def S_IXGRP_def S_IXOTH_def

definition get_permissions :: "32 word \<Rightarrow> string" where
  "get_permissions mode =
     (let p0 = rwx ! unat (drop_bit 6 mode AND 7) @ rwx ! unat (drop_bit 3 mode AND 7) @ rwx ! unat (mode AND 7);
          p1 = (if flag_set mode S_ISUID
                then p0[2 := if flag_set mode S_IXUSR then CHR ''s'' else CHR ''S''] else p0);
          p2 = (if flag_set mode S_ISGID
                then p1[5 := if flag_set mode S_IXGRP then CHR ''s'' else CHR ''S''] else p1)
      in if flag_set mode S_STICKY
         then p2[8 := if flag_set mode S_IXOTH then CHR ''t'' else CHR ''T''] else p2)"

definition ESC :: char where "ESC = CHR 0x1B"

definition colorize_file :: "32 word \<Rightarrow> string" where
  "colorize_file mode =
     (if S_ISDIR mode \<and> flag_set mode S_STICKY then ESC # ''[37;44m''
      else if S_ISDIR mode then ESC # ''[34m''
      else if S_ISREG mode \<and> flag_set mode S_IXUSR then ESC # ''[32m''
      else if S_ISREG mode \<and> flag_set mode S_ISUID then ESC # ''[37;41m''
      else if S_ISREG mode \<and> flag_set mode S_ISGID then ESC # ''[30;43m''
      else if S_ISCHR mode \<or> S_ISBLK mode then ESC # ''[1;33m''
      else if S_ISFIFO mode then ESC # ''[33m''
      else if S_ISSOCK mode then ESC # ''[35m''
      else if S_ISLNK mode then ESC # ''[36m''
      else [])"

section \<open>Output\<close>

definition reset_color :: string where "reset_color = ESC # ''[0m''"

definition max_len :: "nat list \<Rightarrow> nat" where
  "max_len ns = foldl max 0 ns"

definition ino_text :: "nat \<Rightarrow> file_info \<Rightarrow> string" where
  "ino_text w f = pad_left (CHR '' '') w (radix_str 10 (st_ino (fi_st f))) @ '' ''"

definition name_text :: "bool \<Rightarrow> file_info \<Rightarrow> string \<Rightarrow> string" where
  "name_text color f s = (if color then colorize_file (st_mode (fi_st f)) else []) @ s @ reset_color"

text \<open>The indices a row of the column format visits: \<^verbatim>\<open>index = col * num_rows + row\<close>.\<close>

definition row_indices :: "nat \<Rightarrow> nat \<Rightarrow> nat \<Rightarrow> nat \<Rightarrow> nat list" where
  "row_indices n num_cols num_rows row =
     filter (\<lambda>i. i < n) (map (\<lambda>col. col * num_rows + row) [0..<num_cols])"

text \<open>\<^verbatim>\<open>col_width\<close>, \<^verbatim>\<open>num_cols\<close> and \<^verbatim>\<open>num_rows\<close>.\<close>

definition columns :: "nat \<Rightarrow> file_info list \<Rightarrow> nat \<times> nat \<times> nat" where
  "columns terminal_width files =
     (let col_width = max_len (map (\<lambda>f. length (fi_name f)) files) + 2;
          num_cols = (if terminal_width div col_width = 0 then 1 else terminal_width div col_width);
          num_rows = (length files + num_cols - 1) div num_cols
      in (col_width, num_cols, num_rows))"

definition column_cell :: "32 word \<Rightarrow> bool \<Rightarrow> nat \<Rightarrow> nat \<Rightarrow> file_info \<Rightarrow> string" where
  "column_cell flags color inode_w col_width f =
     (if flag_set flags FLAG_I then ino_text inode_w f else []) @
     name_text color f (pad_right col_width (fi_name f))"

definition print_columns :: "32 word \<Rightarrow> bool \<Rightarrow> nat \<Rightarrow> nat \<Rightarrow> file_info list \<Rightarrow> string" where
  "print_columns flags color terminal_width inode_w files =
     (case columns terminal_width files of (col_width, num_cols, num_rows) \<Rightarrow>
      concat (map (\<lambda>row.
           concat (map (\<lambda>index. column_cell flags color inode_w col_width (files ! index))
             (row_indices (length files) num_cols num_rows row)) @ ''\<newline>'')
         [0..<num_rows]))"

definition time_to_use :: "32 word \<Rightarrow> stat \<Rightarrow> int" where
  "time_to_use flags st =
     (if flag_set flags FLAG_T then
        if flag_set flags FLAG_U then st_atime st
        else if flag_set flags FLAG_C then st_ctime st
        else st_mtime st
      else if flag_set flags FLAG_U then st_atime st
      else if flag_set flags FLAG_C then st_ctime st
      else st_mtime st)"

definition opt_name :: "string option \<Rightarrow> string" where
  "opt_name n = (case n of Some s \<Rightarrow> s | None \<Rightarrow> [])"

definition long_line :: "ls_env \<Rightarrow> 32 word \<Rightarrow> bool \<Rightarrow> nat \<Rightarrow> nat \<Rightarrow> nat \<Rightarrow> file_info \<Rightarrow> string" where
  "long_line env flags color pw_w gr_w size_w f =
     (let st = fi_st f in
      get_file_type (st_mode st) # get_permissions (st_mode st) @ '' '' @
      pad_left (CHR '' '') 2 (radix_str 10 (st_nlink st)) @ '' '' @
      pad_right pw_w (opt_name (le_getpwuid env (st_uid st))) @ '' '' @
      pad_right gr_w (opt_name (le_getgrgid env (st_gid st))) @ '' '' @
      pad_left (CHR '' '') size_w (dec_str (st_size st)) @ '' '' @
      le_strftime env (time_to_use flags st) @ '' '' @
      name_text color f (fi_name f) @
      (if S_ISLNK (st_mode st) then (case fi_linkname f of Some t \<Rightarrow> '' -> '' @ t | None \<Rightarrow> []) else []) @
      ''\<newline>'')"

definition short_line :: "32 word \<Rightarrow> bool \<Rightarrow> file_info \<Rightarrow> string" where
  "short_line flags color f =
     name_text color f (fi_name f @ (if flag_set flags FLAG_1 then ''\<newline>'' else ''  ''))"

text \<open>Half of the blocks, as C divides.\<close>

definition total_line :: "file_info list \<Rightarrow> string" where
  "total_line files =
     (let n = sum_list (map (\<lambda>f. st_blocks (fi_st f)) files)
      in ''total '' @ dec_str (sgn n * (\<bar>n\<bar> div 2)) @ ''\<newline>'')"

definition print_output :: "ls_env \<Rightarrow> bool \<Rightarrow> 32 word \<Rightarrow> file_info list \<Rightarrow> string" where
  "print_output env color flags files =
     (let pw_w = max_len (map (\<lambda>f. length (opt_name (le_getpwuid env (st_uid (fi_st f))))) files);
          gr_w = max_len (map (\<lambda>f. length (opt_name (le_getgrgid env (st_gid (fi_st f))))) files);
          size_w = length (dec_str (foldl max (-1) (map (\<lambda>f. st_size (fi_st f)) files)));
          inode_w = max_len (map (\<lambda>f. length (radix_str 10 (st_ino (fi_st f)))) files)
      in (if flag_set flags FLAG_L then total_line files else []) @
         (if \<not> flag_set flags FLAG_L \<and> \<not> flag_set flags FLAG_1
          then print_columns flags color (le_ws_col env) inode_w files
          else concat (map (\<lambda>f.
            (if flag_set flags FLAG_I then ino_text inode_w f else []) @
            (if flag_set flags FLAG_L then long_line env flags color pw_w gr_w size_w f
             else short_line flags color f)) files)))"

fun list_more :: "((file_info \<Rightarrow> file_info \<Rightarrow> int) \<Rightarrow> file_info list \<Rightarrow> file_info list) \<Rightarrow> ls_env \<Rightarrow> bool \<Rightarrow>
    32 word \<Rightarrow> string list \<Rightarrow> string c_res" where
  "list_more qsort env color flags [] = Inr []"
| "list_more qsort env color flags (p # ps) =
     c_bind (process_and_sort qsort env p flags) (\<lambda>r.
     c_bind (list_more qsort env color flags ps) (\<lambda>out.
       Inr (''\<newline>'' @ p @ '':'' @ ''\<newline>'' @
            (case r of Some files \<Rightarrow> if files \<noteq> [] then print_output env color flags files else []
             | None \<Rightarrow> []) @ out)))"

text \<open>\<^verbatim>\<open>main\<close>: the exit status and the output.\<close>

definition ls_main :: "((file_info \<Rightarrow> file_info \<Rightarrow> int) \<Rightarrow> file_info list \<Rightarrow> file_info list) \<Rightarrow> ls_env \<Rightarrow>
    char list \<Rightarrow> string list \<Rightarrow> (int \<times> string) c_res" where
  "ls_main qsort env buf args =
     c_bind (parse_input buf args) (\<lambda>(flags, color, path, more).
     c_bind (process_and_sort qsort env path flags) (\<lambda>r.
     (case r of
        None \<Rightarrow> Inr (1, [])
      | Some files \<Rightarrow>
          c_bind (if \<not> flag_set flags FLAG_D then list_more qsort env color flags more else Inr []) (\<lambda>out.
            Inr (0, print_output env color flags files @ out)))))"

section \<open>Permissions\<close>

lemma flag_set_bit:
  "flag_set m S_ISUID \<longleftrightarrow> bit m 11" "flag_set m S_ISGID \<longleftrightarrow> bit m 10" "flag_set m S_STICKY \<longleftrightarrow> bit m 9"
  "flag_set m S_IXUSR \<longleftrightarrow> bit m 6" "flag_set m S_IXGRP \<longleftrightarrow> bit m 3" "flag_set m S_IXOTH \<longleftrightarrow> bit m 0"
  using and_exp_eq_0_iff_not_bit [of m 11] and_exp_eq_0_iff_not_bit [of m 10] and_exp_eq_0_iff_not_bit [of m 9]
    and_exp_eq_0_iff_not_bit [of m 6] and_exp_eq_0_iff_not_bit [of m 3] and_exp_eq_0_iff_not_bit [of m 0]
  by (simp_all add: flag_set_def perm_bits)

definition tern :: "bool \<Rightarrow> char \<Rightarrow> char" where
  "tern b c = (if b then c else CHR ''-'')"

lemma take_bit_3: "take_bit 3 (k :: nat) = 4 * of_bool (bit k 2) + (2 * of_bool (bit k 1) + of_bool (bit k 0))"
proof -
  have "take_bit (Suc (Suc (Suc 0))) k =
      2 ^ Suc (Suc 0) * of_bool (bit k (Suc (Suc 0))) + (2 ^ Suc 0 * of_bool (bit k (Suc 0)) +
        (2 ^ 0 * of_bool (bit k 0) + take_bit 0 k))"
    by (simp only: take_bit_Suc_from_most)
  then show ?thesis by (simp only: eval_nat_numeral BitM.simps) simp
qed

lemma rwx_bits:
  "rwx ! unat (w AND 7) = [tern (bit w 2) (CHR ''r''), tern (bit w 1) (CHR ''w''), tern (bit w 0) (CHR ''x'')]"
  for w :: "32 word"
proof -
  have "unat (w AND 7) = take_bit 3 (unat w)"
    by (simp add: take_bit_eq_mask mask_eq_exp_minus_1 unsigned_and_eq)
  also have "\<dots> = 4 * of_bool (bit w 2) + (2 * of_bool (bit w 1) + of_bool (bit w 0))"
    by (simp add: take_bit_3 bit_unsigned_iff)
  finally show ?thesis
    by (cases "bit w 2"; cases "bit w 1"; cases "bit w 0") (simp_all add: rwx_def tern_def)
qed

text \<open>A slot for execution: the special bit shows as a letter, in capitals when it has no effect.\<close>

definition x_slot :: "bool \<Rightarrow> bool \<Rightarrow> char \<Rightarrow> char \<Rightarrow> char" where
  "x_slot special exec lower upper =
     (if special then (if exec then lower else upper) else tern exec (CHR ''x''))"

text \<open>C25: The nine letters of a mode are those of its bits: read, write and execute for user, group
  and others from bits 8 to 0, with the set-user-id, set-group-id and sticky bits (11, 10, 9) shown in
  the three execute slots.\<close>

theorem get_permissions_bits:
  "get_permissions mode =
     [tern (bit mode 8) (CHR ''r''), tern (bit mode 7) (CHR ''w''),
      x_slot (bit mode 11) (bit mode 6) (CHR ''s'') (CHR ''S''),
      tern (bit mode 5) (CHR ''r''), tern (bit mode 4) (CHR ''w''),
      x_slot (bit mode 10) (bit mode 3) (CHR ''s'') (CHR ''S''),
      tern (bit mode 2) (CHR ''r''), tern (bit mode 1) (CHR ''w''),
      x_slot (bit mode 9) (bit mode 0) (CHR ''t'') (CHR ''T'')]"
  by (simp add: get_permissions_def rwx_bits flag_set_bit bit_drop_bit_eq x_slot_def Let_def)

section \<open>The columns\<close>






section \<open>Reading and sorting\<close>

text \<open>What a listing should hold: the entries that are shown and whose status can be read.\<close>

definition hidden :: "32 word \<Rightarrow> string \<Rightarrow> bool" where
  "hidden flags name \<longleftrightarrow> take 1 name = ''.'' \<and> \<not> flag_set flags FLAG_A \<and> \<not> flag_set flags FLAG_F"

definition entry_of :: "ls_env \<Rightarrow> string \<Rightarrow> string \<Rightarrow> file_info option" where
  "entry_of env path name = map_option
     (\<lambda>st. \<lparr>fi_name = name, fi_st = st, fi_linkname = link_text env (full_path path name) st\<rparr>)
     (le_lstat env (full_path path name))"

definition listing :: "ls_env \<Rightarrow> string \<Rightarrow> 32 word \<Rightarrow> string list \<Rightarrow> file_info list" where
  "listing env path flags names =
     List.map_filter (entry_of env path) (filter (\<lambda>d. \<not> hidden flags d) names)"

lemma flag_set_or: "flag_set (a OR b) c \<longleftrightarrow> flag_set a c \<or> flag_set b c"
  by (auto simp: flag_set_def bit.conj_disj_distrib2 or_eq_0_iff)

lemma flags_f_a: "flag_set FLAG_A FLAG_A" "\<not> flag_set FLAG_A FLAG_F" "\<not> flag_set FLAG_A FLAG_L"
  by (simp_all add: flag_set_def flag_defs)

lemma listing_or: "flag_set flags FLAG_F \<Longrightarrow> listing env path (flags OR FLAG_A) ns = listing env path flags ns"
  by (simp add: listing_def hidden_def flag_set_or flags_f_a)

text \<open>The loop never stores behind the end of the array, and stores exactly the listing.\<close>

lemma readdir_loop_result:
  assumes "length files \<le> capacity" and "0 < capacity"
  shows "\<exists>capacity'. readdir_loop env path flags names files capacity =
    Inr (files @ listing env path flags names, capacity')"
  using assms
proof (induction names arbitrary: flags files capacity)
  case Nil
  then show ?case by (simp add: listing_def)
next
  case (Cons d names)
  let ?fl = "if flag_set flags FLAG_F then flags OR FLAG_A else flags"
  let ?cap = "if length files \<ge> capacity then capacity * 2 else capacity"
  have hid: "\<not> flag_set ?fl FLAG_A \<and> take 1 d = ''.'' \<longleftrightarrow> hidden flags d"
    by (auto simp: hidden_def flag_set_or flags_f_a)
  have same: "listing env path ?fl names = listing env path flags names"
    by (simp add: listing_or)
  have cap: "length files < ?cap" "0 < ?cap" using Cons.prems by auto
  define fl where "fl = ?fl"
  define cp where "cp = ?cap"
  have step: "readdir_loop env path flags (d # names) files capacity =
      (if hidden flags d then readdir_loop env path fl names files capacity
       else (case le_lstat env (full_path path d) of
               None \<Rightarrow> readdir_loop env path fl names files cp
             | Some st \<Rightarrow> readdir_loop env path fl names
                 (files @ [\<lparr>fi_name = d, fi_st = st,
                            fi_linkname = link_text env (full_path path d) st\<rparr>]) cp))"
    using cap(1) by (simp only: readdir_loop.simps Let_def hid fl_def cp_def not_le [symmetric] if_False)
  have IH: "\<exists>c'. readdir_loop env path fl names fs cp = Inr (fs @ listing env path flags names, c')"
    if "length fs \<le> cp" for fs
    using Cons.IH [of fs cp fl] that cap(2) same by (simp add: fl_def cp_def)
  show ?case
  proof (cases "hidden flags d")
    case True
    have "listing env path flags (d # names) = listing env path flags names"
      using True by (simp add: listing_def)
    with Cons.IH [OF Cons.prems, of fl] step True same show ?thesis by (simp add: fl_def)
  next
    case shown: False
    show ?thesis
    proof (cases "le_lstat env (full_path path d)")
      case None
      then have "listing env path flags (d # names) = listing env path flags names"
        using shown by (simp add: listing_def entry_of_def List.map_filter_simps)
      with IH [of files] cap(1) step shown None show ?thesis by (simp add: cp_def)
    next
      case (Some st)
      let ?e = "\<lparr>fi_name = d, fi_st = st, fi_linkname = link_text env (full_path path d) st\<rparr>"
      have "listing env path flags (d # names) = ?e # listing env path flags names"
        using shown Some by (simp add: listing_def entry_of_def List.map_filter_simps)
      moreover have "length (files @ [?e]) \<le> cp" using cap(1) by (simp add: cp_def)
      ultimately show ?thesis using IH [of "files @ [?e]"] step shown Some by simp
    qed
  qed
qed

text \<open>
  The standard's promise about \<^verbatim>\<open>qsort\<close>: a permutation, and in order when the comparison
  is consistent on the elements.
\<close>

definition consistent :: "('a \<Rightarrow> 'a \<Rightarrow> int) \<Rightarrow> 'a set \<Rightarrow> bool" where
  "consistent cmp A \<longleftrightarrow>
     (\<forall>a \<in> A. \<forall>b \<in> A. 0 < cmp a b \<longleftrightarrow> cmp b a < 0) \<and>
     (\<forall>a \<in> A. \<forall>b \<in> A. \<forall>c \<in> A. cmp a b \<le> 0 \<longrightarrow> cmp b c \<le> 0 \<longrightarrow> cmp a c \<le> 0)"

definition sorts :: "(('a \<Rightarrow> 'a \<Rightarrow> int) \<Rightarrow> 'a list \<Rightarrow> 'a list) \<Rightarrow> bool" where
  "sorts qsort \<longleftrightarrow> (\<forall>cmp xs. mset (qsort cmp xs) = mset xs \<and>
     (consistent cmp (set xs) \<longrightarrow> sorted_wrt (\<lambda>a b. cmp a b \<le> 0) (qsort cmp xs)))"

lemma consistent_name: "consistent compare_name A"
  unfolding consistent_def compare_name_def
  by (metis strcmp_trans strcmp_antisym neg_less_0_iff_less)

text \<open>A comparison of times is consistent on times less than 68 years apart.\<close>

definition close_times :: "(stat \<Rightarrow> int) \<Rightarrow> file_info list \<Rightarrow> bool" where
  "close_times tm fs \<longleftrightarrow> (\<forall>a \<in> set fs. \<forall>b \<in> set fs. \<bar>tm (fi_st a) - tm (fi_st b)\<bar> < 2147483648)"

lemma wrap32_close: "\<bar>z\<bar> < 2147483648 \<Longrightarrow> wrap32 z = z"
  by (rule wrap32_id) (simp add: in32_def abs_less_iff)

lemma consistent_time:
  assumes "close_times tm fs" and "\<And>a b. cmp a b = wrap32 (tm (fi_st b) - tm (fi_st a))"
  shows "consistent cmp (set fs)"
    and "a \<in> set fs \<Longrightarrow> b \<in> set fs \<Longrightarrow> cmp a b \<le> 0 \<longleftrightarrow> tm (fi_st b) \<le> tm (fi_st a)"
proof -
  have c: "cmp a b = tm (fi_st b) - tm (fi_st a)" if "a \<in> set fs" "b \<in> set fs" for a b
    using assms(1) that by (simp add: assms(2) close_times_def wrap32_close)
  then show "consistent cmp (set fs)" by (simp add: consistent_def)
  show "a \<in> set fs \<Longrightarrow> b \<in> set fs \<Longrightarrow> cmp a b \<le> 0 \<longleftrightarrow> tm (fi_st b) \<le> tm (fi_st a)"
    by (simp add: c)
qed

lemma sorted_wrt_cong_set:
  "(\<And>a b. a \<in> set xs \<Longrightarrow> b \<in> set xs \<Longrightarrow> P a b \<longleftrightarrow> Q a b) \<Longrightarrow> sorted_wrt P xs \<longleftrightarrow> sorted_wrt Q xs"
  by (induction xs) auto

lemma sort_by_time:
  assumes "sorts qsort" and "close_times tm fs"
    and "\<And>a b. cmp a b = wrap32 (tm (fi_st b) - tm (fi_st a))"
  shows "sorted_wrt (\<lambda>a b. tm (fi_st b) \<le> tm (fi_st a)) (qsort cmp fs)"
proof -
  have m: "set (qsort cmp fs) = set fs" using assms(1) by (metis mset_eq_setD sorts_def)
  have "sorted_wrt (\<lambda>a b. cmp a b \<le> 0) (qsort cmp fs)"
    using assms(1) consistent_time(1) [OF assms(2,3)] by (simp add: sorts_def)
  then show ?thesis
    using consistent_time(2) [OF assms(2,3)] by (subst sorted_wrt_cong_set) (auto simp: m)
qed

lemma sort_files_mset: "sorts qsort \<Longrightarrow> mset (sort_files qsort flags fs) = mset fs"
  by (simp add: sort_files_def sorts_def)

text \<open>C11: A directory that can be opened is listed whole: the result is a permutation of the entries
  shown under the flags whose status could be read, nothing is stored outside the array however large
  the directory, and the order is that of the options: by name for \<^verbatim>\<open>-l\<close>; newest first by
  modification, access or change time for \<^verbatim>\<open>-t\<close>, \<^verbatim>\<open>-tu\<close> and \<^verbatim>\<open>-tc\<close>, and by access
  or change time for \<^verbatim>\<open>-u\<close> and \<^verbatim>\<open>-c\<close> alone, when the times are less than 68 years apart;
  as read for \<^verbatim>\<open>-f\<close> and without any of these options.\<close>

theorem listing_sorted:
  assumes "sorts qsort" and "le_opendir env path = Some names" and "\<not> flag_set flags FLAG_D"
    and "fs = listing env path flags names"
  shows "\<exists>out. process_and_sort qsort env path flags = Inr (Some out) \<and> mset out = mset fs \<and>
    (flag_set flags FLAG_F \<longrightarrow> out = fs) \<and>
    (\<not> flag_set flags FLAG_F \<longrightarrow>
      (flag_set flags FLAG_L \<and> \<not> flag_set flags FLAG_T \<longrightarrow>
         sorted_wrt (\<lambda>a b. strcmp (fi_name a) (fi_name b) \<le> 0) out) \<and>
      (flag_set flags FLAG_T \<and> flag_set flags FLAG_U \<and> close_times st_atime fs \<longrightarrow>
         sorted_wrt (\<lambda>a b. st_atime (fi_st b) \<le> st_atime (fi_st a)) out) \<and>
      (flag_set flags FLAG_T \<and> \<not> flag_set flags FLAG_U \<and> flag_set flags FLAG_C \<and> close_times st_ctime fs \<longrightarrow>
         sorted_wrt (\<lambda>a b. st_ctime (fi_st b) \<le> st_ctime (fi_st a)) out) \<and>
      (flag_set flags FLAG_T \<and> \<not> flag_set flags FLAG_U \<and> \<not> flag_set flags FLAG_C \<and> close_times st_mtime fs \<longrightarrow>
         sorted_wrt (\<lambda>a b. st_mtime (fi_st b) \<le> st_mtime (fi_st a)) out) \<and>
      (\<not> flag_set flags FLAG_T \<and> \<not> flag_set flags FLAG_L \<and> flag_set flags FLAG_U \<and> close_times st_atime fs \<longrightarrow>
         sorted_wrt (\<lambda>a b. st_atime (fi_st b) \<le> st_atime (fi_st a)) out) \<and>
      (\<not> flag_set flags FLAG_T \<and> \<not> flag_set flags FLAG_L \<and> \<not> flag_set flags FLAG_U \<and> flag_set flags FLAG_C \<and>
         close_times st_ctime fs \<longrightarrow> sorted_wrt (\<lambda>a b. st_ctime (fi_st b) \<le> st_ctime (fi_st a)) out) \<and>
      (\<not> flag_set flags FLAG_T \<and> \<not> flag_set flags FLAG_L \<and> \<not> flag_set flags FLAG_U \<and> \<not> flag_set flags FLAG_C \<longrightarrow>
         out = fs))"
proof (intro exI conjI)
  have "0 < INITIAL_CAPACITY" by (simp add: INITIAL_CAPACITY_def)
  with readdir_loop_result [of "[]" INITIAL_CAPACITY env path flags names] obtain cap where
    "readdir_loop env path flags names [] INITIAL_CAPACITY = Inr (fs, cap)"
    by (auto simp: assms(4))
  then show "process_and_sort qsort env path flags = Inr (Some (sort_files qsort flags fs))"
    using assms(2,3) by (simp add: process_and_sort_def)
  show "mset (sort_files qsort flags fs) = mset fs" by (rule sort_files_mset [OF assms(1)])
  show "flag_set flags FLAG_F \<longrightarrow> sort_files qsort flags fs = fs" by (simp add: sort_files_def)
  have n: "sorted_wrt (\<lambda>a b. strcmp (fi_name a) (fi_name b) \<le> 0) (qsort compare_name fs)"
  proof -
    have "sorted_wrt (\<lambda>a b. compare_name a b \<le> 0) (qsort compare_name fs)"
      using assms(1) consistent_name by (simp add: sorts_def)
    then show ?thesis by (simp add: compare_name_def)
  qed
  note t = sort_by_time [OF assms(1)] and d = compare_atime_def compare_ctime_def compare_mtime_def
  have a: "close_times st_atime fs \<Longrightarrow>
      sorted_wrt (\<lambda>a b. st_atime (fi_st b) \<le> st_atime (fi_st a)) (qsort compare_atime fs)"
    by (rule t) (simp_all add: d)
  have c: "close_times st_ctime fs \<Longrightarrow>
      sorted_wrt (\<lambda>a b. st_ctime (fi_st b) \<le> st_ctime (fi_st a)) (qsort compare_ctime fs)"
    by (rule t) (simp_all add: d)
  have m: "close_times st_mtime fs \<Longrightarrow>
      sorted_wrt (\<lambda>a b. st_mtime (fi_st b) \<le> st_mtime (fi_st a)) (qsort compare_mtime fs)"
    by (rule t) (simp_all add: d)
  let ?out = "sort_files qsort flags fs"
  show "\<not> flag_set flags FLAG_F \<longrightarrow>
      (flag_set flags FLAG_L \<and> \<not> flag_set flags FLAG_T \<longrightarrow>
         sorted_wrt (\<lambda>a b. strcmp (fi_name a) (fi_name b) \<le> 0) ?out) \<and>
      (flag_set flags FLAG_T \<and> flag_set flags FLAG_U \<and> close_times st_atime fs \<longrightarrow>
         sorted_wrt (\<lambda>a b. st_atime (fi_st b) \<le> st_atime (fi_st a)) ?out) \<and>
      (flag_set flags FLAG_T \<and> \<not> flag_set flags FLAG_U \<and> flag_set flags FLAG_C \<and> close_times st_ctime fs \<longrightarrow>
         sorted_wrt (\<lambda>a b. st_ctime (fi_st b) \<le> st_ctime (fi_st a)) ?out) \<and>
      (flag_set flags FLAG_T \<and> \<not> flag_set flags FLAG_U \<and> \<not> flag_set flags FLAG_C \<and> close_times st_mtime fs \<longrightarrow>
         sorted_wrt (\<lambda>a b. st_mtime (fi_st b) \<le> st_mtime (fi_st a)) ?out) \<and>
      (\<not> flag_set flags FLAG_T \<and> \<not> flag_set flags FLAG_L \<and> flag_set flags FLAG_U \<and> close_times st_atime fs \<longrightarrow>
         sorted_wrt (\<lambda>a b. st_atime (fi_st b) \<le> st_atime (fi_st a)) ?out) \<and>
      (\<not> flag_set flags FLAG_T \<and> \<not> flag_set flags FLAG_L \<and> \<not> flag_set flags FLAG_U \<and> flag_set flags FLAG_C \<and>
         close_times st_ctime fs \<longrightarrow> sorted_wrt (\<lambda>a b. st_ctime (fi_st b) \<le> st_ctime (fi_st a)) ?out) \<and>
      (\<not> flag_set flags FLAG_T \<and> \<not> flag_set flags FLAG_L \<and> \<not> flag_set flags FLAG_U \<and> \<not> flag_set flags FLAG_C \<longrightarrow>
         ?out = fs)"
    using n a c m by (simp add: sort_files_def)
qed

text \<open>An insertion sort keeps the promise.\<close>

fun ins_by :: "('a \<Rightarrow> 'a \<Rightarrow> int) \<Rightarrow> 'a \<Rightarrow> 'a list \<Rightarrow> 'a list" where
  "ins_by cmp x [] = [x]"
| "ins_by cmp x (y # ys) = (if cmp x y \<le> 0 then x # y # ys else y # ins_by cmp x ys)"

fun sort_by :: "('a \<Rightarrow> 'a \<Rightarrow> int) \<Rightarrow> 'a list \<Rightarrow> 'a list" where
  "sort_by cmp [] = []"
| "sort_by cmp (x # xs) = ins_by cmp x (sort_by cmp xs)"

lemma ins_by_mset: "mset (ins_by cmp x ys) = add_mset x (mset ys)"
  by (induction ys) auto

lemma sort_by_mset: "mset (sort_by cmp xs) = mset xs"
  by (induction xs) (simp_all add: ins_by_mset)

lemma consistent_subset: "consistent cmp A \<Longrightarrow> B \<subseteq> A \<Longrightarrow> consistent cmp B"
  unfolding consistent_def by (meson subsetD)

lemma consistent_trans:
  "consistent cmp A \<Longrightarrow> a \<in> A \<Longrightarrow> b \<in> A \<Longrightarrow> c \<in> A \<Longrightarrow> cmp a b \<le> 0 \<Longrightarrow> cmp b c \<le> 0 \<Longrightarrow> cmp a c \<le> 0"
  unfolding consistent_def by blast

lemma consistent_total: "consistent cmp A \<Longrightarrow> a \<in> A \<Longrightarrow> b \<in> A \<Longrightarrow> \<not> cmp a b \<le> 0 \<Longrightarrow> cmp b a \<le> 0"
  unfolding consistent_def by (meson less_imp_le not_le)

lemma ins_by_sorted:
  "consistent cmp (insert x (set ys)) \<Longrightarrow> sorted_wrt (\<lambda>a b. cmp a b \<le> 0) ys \<Longrightarrow>
   sorted_wrt (\<lambda>a b. cmp a b \<le> 0) (ins_by cmp x ys)"
proof (induction ys)
  case (Cons y ys)
  have s: "set (ins_by cmp x ys) = insert x (set ys)"
    using mset_eq_setD [of "ins_by cmp x ys" "x # ys"] by (simp add: ins_by_mset)
  have c: "consistent cmp (insert x (insert y (set ys)))" using Cons.prems(1) by simp
  show ?case
  proof (cases "cmp x y \<le> 0")
    case True
    have "cmp x z \<le> 0" if "z \<in> set ys" for z
      using consistent_trans [OF c, of x y z] True that Cons.prems(2) by simp
    with True Cons.prems(2) show ?thesis by simp
  next
    case False
    have "cmp y x \<le> 0" using consistent_total [OF c, of x y] False by simp
    moreover have "sorted_wrt (\<lambda>a b. cmp a b \<le> 0) (ins_by cmp x ys)"
      using Cons.IH consistent_subset [OF c, of "insert x (set ys)"] Cons.prems(2) by fastforce
    ultimately show ?thesis using False s Cons.prems(2) by simp
  qed
qed simp

lemma sort_by_sorted: "consistent cmp (set xs) \<Longrightarrow> sorted_wrt (\<lambda>a b. cmp a b \<le> 0) (sort_by cmp xs)"
proof (induction xs)
  case (Cons x xs)
  have s: "set (sort_by cmp xs) = set xs" by (metis mset_eq_setD sort_by_mset)
  have "consistent cmp (set xs)" using consistent_subset [OF Cons.prems] by auto
  from Cons.IH [OF this] Cons.prems show ?case
    by (simp only: sort_by.simps) (rule ins_by_sorted; simp add: s)
qed simp

lemma sorts_sort_by: "sorts sort_by"
  by (simp add: sorts_def sort_by_mset sort_by_sorted)

definition plain_stat :: "int \<Rightarrow> stat" where
  "plain_stat t = \<lparr>st_mode = 0x81A4, st_nlink = 1, st_uid = 0, st_gid = 0, st_size = 5, st_ino = 7,
     st_blocks = 8, st_atime = 0, st_mtime = t, st_ctime = 0\<rparr>"

definition sample_dir :: ls_env where
  "sample_dir = \<lparr>le_opendir = [''.'' \<mapsto> [''.git'', ''b'', ''gone'', ''a'']],
     le_lstat = [''./.git'' \<mapsto> plain_stat 9, ''./b'' \<mapsto> plain_stat 3, ''./a'' \<mapsto> plain_stat 5],
     le_readlink = (\<lambda>_. None), le_getpwuid = (\<lambda>_. Some ''root''), le_getgrgid = (\<lambda>_. None),
     le_strftime = (\<lambda>_. ''Jan 01 00:00''), le_ws_col = 80\<rparr>"

theorem listing_sorted_witness:
  "\<exists>out. process_and_sort sort_by sample_dir ''.'' FLAG_T = Inr (Some out) \<and>
     mset out = mset (listing sample_dir ''.'' FLAG_T [''.git'', ''b'', ''gone'', ''a'']) \<and>
     sorted_wrt (\<lambda>a b. st_mtime (fi_st b) \<le> st_mtime (fi_st a)) out"
proof -
  have o: "le_opendir sample_dir ''.'' = Some [''.git'', ''b'', ''gone'', ''a'']" by (simp add: sample_dir_def)
  have f: "\<not> flag_set FLAG_T FLAG_D" "\<not> flag_set FLAG_T FLAG_F" "flag_set FLAG_T FLAG_T"
    "\<not> flag_set FLAG_T FLAG_U" "\<not> flag_set FLAG_T FLAG_C"
    by (simp_all add: flag_set_def flag_defs)
  have "map fi_name (listing sample_dir ''.'' FLAG_T [''.git'', ''b'', ''gone'', ''a'']) = [''b'', ''a''] \<and>
      map (\<lambda>x. st_mtime (fi_st x)) (listing sample_dir ''.'' FLAG_T [''.git'', ''b'', ''gone'', ''a'']) = [3, 5]"
    by code_simp
  then have "close_times st_mtime (listing sample_dir ''.'' FLAG_T [''.git'', ''b'', ''gone'', ''a''])"
    by (auto simp: close_times_def map_eq_Cons_conv)
  with listing_sorted [OF sorts_sort_by o f(1) refl] f show ?thesis by blast
qed

text \<open>Files more than 68 years apart are compared the wrong way round: with the newer one from
  2^31 up to 2^32 - 1 seconds younger, \<^verbatim>\<open>compare_mtime\<close> puts the older one first, and a
  sort by time of the two lists the older one before the newer one.\<close>

theorem compare_mtime_wraps:
  assumes "2147483648 \<le> st_mtime (fi_st b) - st_mtime (fi_st a)"
    and "st_mtime (fi_st b) - st_mtime (fi_st a) < 4294967296"
  shows "compare_mtime a b < 0"
proof -
  let ?d = "st_mtime (fi_st b) - st_mtime (fi_st a)"
  have "(?d + 2147483648) mod 4294967296 = (?d - 2147483648) mod 4294967296"
    by (subst mod_add_self2 [symmetric, of "?d - 2147483648"]) (simp add: add.commute)
  also have "\<dots> = ?d - 2147483648" using assms by (simp add: mod_pos_pos_trivial)
  finally have "(?d + 2147483648) mod 4294967296 = ?d - 2147483648" .
  then show ?thesis using assms(2) by (simp add: compare_mtime_def wrap32_def)
qed

theorem compare_mtime_wraps_witness:
  "compare_mtime \<lparr>fi_name = ''old'', fi_st = plain_stat (-1), fi_linkname = None\<rparr>
     \<lparr>fi_name = ''new'', fi_st = plain_stat 2147483647, fi_linkname = None\<rparr> < 0"
  using compare_mtime_wraps [of "\<lparr>fi_name = ''new'', fi_st = plain_stat 2147483647, fi_linkname = None\<rparr>"
    "\<lparr>fi_name = ''old'', fi_st = plain_stat (-1), fi_linkname = None\<rparr>"] by (simp add: plain_stat_def)

section \<open>What the options mean\<close>

lemma flag_pairs:
  "flag_set FLAG_L FLAG_L" "flag_set FLAG_A FLAG_A" "flag_set FLAG_T FLAG_T" "flag_set FLAG_U FLAG_U"
  "flag_set FLAG_C FLAG_C" "flag_set FLAG_I FLAG_I" "flag_set FLAG_F FLAG_F" "flag_set FLAG_D FLAG_D"
  "flag_set FLAG_1 FLAG_1"
  by (simp_all add: flag_set_def flag_defs)

text \<open>The option letters and their bits.\<close>

definition letter_bits :: "(char \<times> 32 word) list" where
  "letter_bits = [(CHR ''l'', FLAG_L), (CHR ''a'', FLAG_A), (CHR ''t'', FLAG_T), (CHR ''u'', FLAG_U),
     (CHR ''c'', FLAG_C), (CHR ''i'', FLAG_I), (CHR ''f'', FLAG_F), (CHR ''d'', FLAG_D), (CHR ''1'', FLAG_1)]"

lemma opt_step_flags:
  assumes "opt_step x flags color = Some (flags', color')" and "(c, b) \<in> set letter_bits"
  shows "flag_set flags' b \<longleftrightarrow> flag_set flags b \<or> x = Short c"
proof (cases x)
  case (Short d)
  have c: "c \<noteq> CHR ''C''" using assms(2) by (auto simp: letter_bits_def)
  have off: "flag_set b' b \<longleftrightarrow> c = c'" if "(c', b') \<in> set letter_bits" for c' b'
    using assms(2) that by (auto simp: letter_bits_def flag_set_def flag_defs)
  show ?thesis
    using assms(1) off [of d] Short c
    by (auto simp: letter_bits_def flag_set_or split: if_splits)
qed (use assms in auto)

lemma opt_loop_flags:
  "opt_loop opts flags color = Some (flags', color') \<Longrightarrow> (c, b) \<in> set letter_bits \<Longrightarrow>
   flag_set flags' b \<longleftrightarrow> flag_set flags b \<or> Short c \<in> set opts"
proof (induction opts arbitrary: flags color)
  case (Cons x xs)
  from Cons.prems(1) obtain f1 c1 where s: "opt_step x flags color = Some (f1, c1)"
    and r: "opt_loop xs f1 c1 = Some (flags', color')" by (auto split: option.splits)
  from opt_step_flags [OF s Cons.prems(2)] Cons.IH [OF r Cons.prems(2)] show ?case by auto
qed simp

lemma opt_loop_color:
  "opt_loop opts flags color = Some (flags', color') \<Longrightarrow> Long_Color \<notin> set opts \<Longrightarrow> Short (CHR ''C'') \<notin> set opts \<Longrightarrow>
   color' \<longleftrightarrow> (color \<longleftrightarrow> even (length (filter (\<lambda>x. x = Short (CHR ''f'')) opts)))"
proof (induction opts arbitrary: flags color)
  case (Cons x xs)
  from Cons.prems(1) obtain f1 c1 where s: "opt_step x flags color = Some (f1, c1)"
    and r: "opt_loop xs f1 c1 = Some (flags', color')" by (auto split: option.splits)
  have "c1 \<longleftrightarrow> (if x = Short (CHR ''f'') then \<not> color else color)"
    using s Cons.prems(2,3) by (cases x) (auto split: if_splits)
  with Cons.IH [OF r] Cons.prems(2,3) show ?case by auto
qed simp

lemma opt_step_none:
  "opt_step x flags color = None \<Longrightarrow> x = Bad_Option \<or> (\<exists>c. x = Short c \<and> c \<notin> set short_opts)"
  by (cases x) (simp_all add: short_opts_def split: if_splits)

lemma opt_loop_none:
  "opt_loop opts flags color = None \<Longrightarrow> Bad_Option \<in> set opts \<or> (\<exists>c. Short c \<in> set opts \<and> c \<notin> set short_opts)"
proof (induction opts arbitrary: flags color)
  case (Cons x xs)
  show ?case
  proof (cases "opt_step x flags color")
    case None
    from opt_step_none [OF None] show ?thesis by auto
  next
    case (Some fc)
    with Cons.prems Cons.IH [of "fst fc" "snd fc"] show ?thesis by (auto split: prod.splits)
  qed
qed simp

lemma opt_loop_some: "opt_loop opts flags color = Some r \<Longrightarrow> Bad_Option \<notin> set opts"
  by (induction opts arbitrary: flags color) (auto split: option.splits)

lemma getopt_short: "Short c \<in> set (fst (getopt_args args)) \<Longrightarrow> c \<in> set short_opts"
  by (induction args) (auto simp: long_opt_def split: prod.splits if_splits)

lemma getopt_no_C: "Short (CHR ''C'') \<notin> set (fst (getopt_args args))"
  by (induction args) (auto simp: short_opts_def long_opt_def split: prod.splits)

text \<open>Splitting the buffer stays within the array, so it only depends on a NUL being there.\<close>

lemma split_loop_ok:
  "0 < capacity \<Longrightarrow> length dirs \<le> capacity \<Longrightarrow> \<exists>r. split_loop capacity dirs s = Inr r"
proof (induction capacity dirs s rule: split_loop.induct)
  case (1 capacity dirs s)
  show ?case
  proof (cases "strtok ''/'' s")
    case (Some p)
    obtain token rest where p: "p = (token, rest)" by fastforce
    let ?cap = "if length dirs \<ge> capacity then capacity * 2 else capacity"
    have "\<exists>r. split_loop ?cap (dirs @ [token]) rest = Inr r"
      by (rule "1.IH" [OF Some p [symmetric] refl]) (use "1.prems" in auto)
    then show ?thesis using "1.prems" Some p by (subst split_loop.simps) (auto simp: Let_def)
  qed (subst split_loop.simps, simp)
qed

lemma parse_input_split:
  "terminated buf \<Longrightarrow> parse_input buf args =
     (case getopt_args args of (opts, operands) \<Rightarrow>
      (case opt_loop opts 0 False of
         None \<Rightarrow> Inl Exit_Failure
       | Some (flags, color) \<Rightarrow>
           (case operands of
              [] \<Rightarrow> Inr (flags, color, ''.'', [])
            | p # ps \<Rightarrow> Inr (flags, color, take (MAX_PATH - 1) p, ps))))"
  using split_loop_ok [of INITIAL_CAPACITY "[]" "cstr buf"]
  by (auto simp: parse_input_def split_path_def INITIAL_CAPACITY_def)

text \<open>C27: The options on the command line, in whatever order and grouping, set exactly the bits of
  their letters; the directory listed is the first operand or the current one. Without
  \<^verbatim>\<open>--color\<close> the output is coloured exactly when \<^verbatim>\<open>-f\<close> is given an odd number of
  times. The program goes on with them exactly when there is a NUL in the buffer it splits before
  writing it and every option is known.\<close>

theorem parse_input_flags:
  "case parse_input buf args of
     Inl e \<Rightarrow> if terminated buf then e = Exit_Failure \<and> Bad_Option \<in> set (fst (getopt_args args))
       else e = Out_Of_Bounds
   | Inr (flags, color, path, others) \<Rightarrow> terminated buf \<and> Bad_Option \<notin> set (fst (getopt_args args)) \<and>
       list_all (\<lambda>(c, b). flag_set flags b \<longleftrightarrow> Short c \<in> set (fst (getopt_args args))) letter_bits \<and>
       (Long_Color \<in> set (fst (getopt_args args)) \<or>
         (color \<longleftrightarrow> odd (length (filter (\<lambda>x. x = Short (CHR ''f'')) (fst (getopt_args args)))))) \<and>
       (case snd (getopt_args args) of
          [] \<Rightarrow> path = ''.'' \<and> others = []
        | p # ps \<Rightarrow> path = take 4095 p \<and> others = ps)"
proof (cases "terminated buf")
  case False
  then show ?thesis by (simp add: parse_input_def split_path_def)
next
  case t: True
  obtain opts rs where g: "getopt_args args = (opts, rs)" by fastforce
  have noC: "Short (CHR ''C'') \<notin> set opts" and known: "x \<in> set opts \<Longrightarrow> x = Short c \<Longrightarrow> c \<in> set short_opts" for x c
    using getopt_no_C [of args] getopt_short [where args = args] by (auto simp: g)
  show ?thesis
  proof (cases "opt_loop opts 0 False")
    case None
    with t opt_loop_none [OF None] known show ?thesis by (auto simp: parse_input_split g)
  next
    case (Some fc)
    obtain flags color where fc: "fc = (flags, color)" by fastforce
    note o = Some [unfolded fc]
    have "\<not> flag_set 0 b" for b by (simp add: flag_set_def)
    then show ?thesis
      using t opt_loop_flags [OF o] opt_loop_color [OF o _ noC] opt_loop_some [OF o]
      by (auto simp: parse_input_split g o MAX_PATH_def list_all_iff split: list.splits)
  qed
qed

end
