(* ===== verification/Bytes.thy ===== *)
theory Bytes
  imports Cstdio
begin

text \<open>
  Little-endian integers in byte buffers, as the programs that read binary files load them
  through pointers on x86-64, and the interface of a record stored in a fixed number of bytes.
\<close>

type_synonym byte = "8 word"

section \<open>Numbers\<close>

fun le_nat :: "byte list \<Rightarrow> nat" where
  "le_nat [] = 0"
| "le_nat (b # bs) = unat b + 256 * le_nat bs"

fun le_bytes :: "nat \<Rightarrow> nat \<Rightarrow> byte list" where
  "le_bytes 0 v = []"
| "le_bytes (Suc n) v = of_nat (v mod 256) # le_bytes n (v div 256)"

lemma le_bytes_numeral:
  "le_bytes (numeral k) v = of_nat (v mod 256) # le_bytes (pred_numeral k) (v div 256)"
  by (subst numeral_eq_Suc [of k]) simp

lemma length_le_bytes [simp]: "length (le_bytes n v) = n"
  by (induction n v rule: le_bytes.induct) auto

lemma unat_byte_lt: "unat (b :: byte) < 256"
  using unsigned_less [of b] by simp

lemma le_nat_lt: "le_nat bs < 256 ^ length bs"
proof (induction bs)
  case (Cons b bs)
  then have "le_nat bs + 1 \<le> 256 ^ length bs" by simp
  then have "256 * (le_nat bs + 1) \<le> 256 * 256 ^ length bs" by (rule mult_left_mono) simp
  with unat_byte_lt [of b] show ?case by simp
qed simp

lemma le_nat_le_bytes: "v < 256 ^ n \<Longrightarrow> le_nat (le_bytes n v) = v"
proof (induction n v rule: le_bytes.induct)
  case (2 n v)
  then have "v div 256 < 256 ^ n" by (simp add: less_mult_imp_div_less mult.commute)
  with 2 have IH: "le_nat (le_bytes n (v div 256)) = v div 256" by blast
  have "unat (of_nat (v mod 256) :: byte) = v mod 256"
    by (simp add: unat_of_nat)
  with IH show ?case by simp
qed simp

lemma le_bytes_le_nat: "length bs = n \<Longrightarrow> le_bytes n (le_nat bs) = bs"
proof (induction bs arbitrary: n)
  case (Cons b bs)
  have "(unat b + 256 * le_nat bs) mod 256 = unat b" "(unat b + 256 * le_nat bs) div 256 = le_nat bs"
    using unat_byte_lt [of b] by simp_all
  with Cons show ?case by (cases n) auto
qed simp

section \<open>Loads\<close>

definition load_le :: "nat \<Rightarrow> nat \<Rightarrow> byte list \<Rightarrow> nat" where
  "load_le n off bs = le_nat (take n (drop off bs))"

definition load8 :: "nat \<Rightarrow> byte list \<Rightarrow> byte" where
  "load8 off bs = bs ! off"

definition load16 :: "nat \<Rightarrow> byte list \<Rightarrow> 16 word" where
  "load16 off bs = of_nat (load_le 2 off bs)"

definition load32 :: "nat \<Rightarrow> byte list \<Rightarrow> 32 word" where
  "load32 off bs = of_nat (load_le 4 off bs)"

definition load64 :: "nat \<Rightarrow> byte list \<Rightarrow> 64 word" where
  "load64 off bs = of_nat (load_le 8 off bs)"

lemmas load_defs = load16_def load32_def load64_def load_le_def

definition bytes16 :: "16 word \<Rightarrow> byte list" where "bytes16 w = le_bytes 2 (unat w)"
definition bytes32 :: "32 word \<Rightarrow> byte list" where "bytes32 w = le_bytes 4 (unat w)"
definition bytes64 :: "64 word \<Rightarrow> byte list" where "bytes64 w = le_bytes 8 (unat w)"

lemma length_bytes [simp]: "length (bytes16 a) = 2" "length (bytes32 b) = 4" "length (bytes64 c) = 8"
  by (simp_all add: bytes16_def bytes32_def bytes64_def)

lemma le_nat_bytes [simp]: "le_nat (bytes16 a) = unat a" "le_nat (bytes32 b) = unat b"
    "le_nat (bytes64 c) = unat c"
  using unsigned_less [of a, where ?'a = nat] unsigned_less [of b, where ?'a = nat]
    unsigned_less [of c, where ?'a = nat]
  by (simp_all add: bytes16_def bytes32_def bytes64_def le_nat_le_bytes)

lemma bytes_inject:
  "bytes16 a = bytes16 a' \<longleftrightarrow> a = a'" "bytes32 b = bytes32 b' \<longleftrightarrow> b = b'"
  "bytes64 c = bytes64 c' \<longleftrightarrow> c = c'"
proof -
  have inj: "f x = f y \<longleftrightarrow> x = y" if "\<And>z. le_nat (f z) = unat z"
    for f :: "'x::len word \<Rightarrow> byte list" and x y
  proof
    assume "f x = f y"
    then have "le_nat (f x) = le_nat (f y)" by (rule arg_cong)
    then show "x = y" by (simp add: that word_unat_eq_iff)
  qed simp
  show "bytes16 a = bytes16 a' \<longleftrightarrow> a = a'" by (rule inj) (rule le_nat_bytes)
  show "bytes32 b = bytes32 b' \<longleftrightarrow> b = b'" by (rule inj) (rule le_nat_bytes)
  show "bytes64 c = bytes64 c' \<longleftrightarrow> c = c'" by (rule inj) (rule le_nat_bytes)
qed

text \<open>A load at the place where the bytes of a word stand gives the word.\<close>

lemma load16_at [simp]: "length p = off \<Longrightarrow> load16 off (p @ bytes16 w @ r) = w"
  by (simp add: load_defs)

lemma load32_at [simp]: "length p = off \<Longrightarrow> load32 off (p @ bytes32 w @ r) = w"
  by (simp add: load_defs)

lemma load64_at [simp]: "length p = off \<Longrightarrow> load64 off (p @ bytes64 w @ r) = w"
  by (simp add: load_defs)

lemma load_skip:
  "length p \<le> off \<Longrightarrow> load16 off (p @ s) = load16 (off - length p) s"
  "length p \<le> off \<Longrightarrow> load32 off (p @ s) = load32 (off - length p) s"
  "length p \<le> off \<Longrightarrow> load64 off (p @ s) = load64 (off - length p) s"
  by (simp_all add: load_defs)

lemma load_first:
  "load16 0 (bytes16 a @ r) = a" "load32 0 (bytes32 b @ r) = b" "load64 0 (bytes64 c @ r) = c"
  using load16_at [of "[]"] load32_at [of "[]"] load64_at [of "[]"] by simp_all

lemma load_le_bytes:
  assumes "off + n \<le> length bs"
  shows "le_bytes n (load_le n off bs) = take n (drop off bs)"
  unfolding load_le_def by (rule le_bytes_le_nat) (use assms in simp)

lemma unat_load:
  shows "unat (load16 off bs) = load_le 2 off bs" "unat (load32 off bs) = load_le 4 off bs"
    "unat (load64 off bs) = load_le 8 off bs"
proof -
  have "load_le n off bs < 256 ^ n" for n
  proof -
    have "length (take n (drop off bs)) \<le> n" by simp
    then have "(256 :: nat) ^ length (take n (drop off bs)) \<le> 256 ^ n" by (rule power_increasing) simp
    with le_nat_lt [of "take n (drop off bs)"] show ?thesis
      unfolding load_le_def by (rule less_le_trans)
  qed
  from this [of 2] this [of 4] this [of 8]
  show "unat (load16 off bs) = load_le 2 off bs" "unat (load32 off bs) = load_le 4 off bs"
    "unat (load64 off bs) = load_le 8 off bs"
    by (simp_all add: load16_def load32_def load64_def unat_of_nat)
qed

lemma bytes_load:
  "off + 2 \<le> length bs \<Longrightarrow> bytes16 (load16 off bs) = take 2 (drop off bs)"
  "off + 4 \<le> length bs \<Longrightarrow> bytes32 (load32 off bs) = take 4 (drop off bs)"
  "off + 8 \<le> length bs \<Longrightarrow> bytes64 (load64 off bs) = take 8 (drop off bs)"
  by (simp_all add: bytes16_def bytes32_def bytes64_def unat_load load_le_bytes)

lemma load32_bytes_eq: "take 4 (drop off bs) = take 4 (drop off' bs') \<Longrightarrow> load32 off bs = load32 off' bs'"
  by (simp add: load_defs)

section \<open>Bytes in hexadecimal\<close>

text \<open>\<^verbatim>\<open>%2.2x\<close>\<close>

definition hex2 :: "byte \<Rightarrow> string" where
  "hex2 b = pad_left (CHR ''0'') 2 (radix_str 16 (unat b))"

lemma radix_val_zeros: "radix_val b (replicate n (CHR ''0'') @ s) = radix_val b s"
proof -
  have "foldl (\<lambda>v c. b * v + digit_val c) 0 (replicate n (CHR ''0'')) = 0"
    by (induction n) (simp_all add: digit_val_def)
  then show ?thesis by (simp add: radix_val_def)
qed

lemma hex2_inject: "hex2 a = hex2 b \<longleftrightarrow> a = b"
proof -
  have "radix_val 16 (hex2 c) = unat c" for c
    by (simp add: hex2_def pad_left_def radix_val_zeros radix_val_str)
  then show ?thesis by (metis word_unat_eq_iff)
qed

lemma length_hex2: "length (hex2 b) = 2"
proof -
  have "length (radix_str 16 (unat b)) \<le> 2"
  proof (cases "unat b < 16")
    case False
    have "unat b div 16 < 16" using unat_byte_lt [of b] by simp
    with False show ?thesis by (subst radix_str.simps) (simp add: radix_str_small)
  qed (simp add: radix_str_small)
  then show ?thesis by (simp add: hex2_def length_pad_left)
qed

section \<open>Records of a fixed size\<close>

text \<open>
  A packed C structure: \<open>enc\<close> lays it out in \<open>sz\<close> bytes, \<open>dec\<close> is the access
  through a pointer to its first byte, whatever follows. \<open>valid\<close>: its array members have
  their declared lengths.
\<close>

locale packed_struct =
  fixes enc :: "'a \<Rightarrow> byte list" and dec :: "byte list \<Rightarrow> 'a" and sz :: nat and valid :: "'a \<Rightarrow> bool"
  assumes length_enc: "valid x \<Longrightarrow> length (enc x) = sz"
    and dec_enc: "valid x \<Longrightarrow> dec (enc x @ r) = x"
begin

lemma enc_inject: "valid x \<Longrightarrow> valid y \<Longrightarrow> enc x = enc y \<longleftrightarrow> x = y"
  by (metis dec_enc)

lemma length_array: "list_all valid xs \<Longrightarrow> length (concat (map enc xs)) = length xs * sz"
  by (induction xs) (simp_all add: length_enc)

text \<open>An array of the structures: element \<open>i\<close> stands at offset \<open>i * sz\<close>.\<close>

lemma drop_array: "list_all valid xs \<Longrightarrow> i < length xs \<Longrightarrow>
  drop (i * sz) (concat (map enc xs) @ r) =
  enc (xs ! i) @ concat (map enc (drop (Suc i) xs)) @ r"
proof (induction xs arbitrary: i)
  case (Cons x xs)
  show ?case
  proof (cases i)
    case (Suc j)
    then have "drop (i * sz) (concat (map enc (x # xs)) @ r) = drop (j * sz) (concat (map enc xs) @ r)"
      using Cons.prems by (simp add: length_enc)
    with Cons Suc show ?thesis by simp
  qed simp
qed simp

lemma dec_array: "list_all valid xs \<Longrightarrow> i < length xs \<Longrightarrow>
  dec (drop (i * sz) (concat (map enc xs) @ r)) = xs ! i"
  by (simp only: drop_array) (simp add: dec_enc list_all_length)

end

end
