(* ===== verification/Fdisk.thy ===== *)
theory Fdisk
  imports Bytes
begin

text \<open>
  \<^verbatim>\<open>fdisk_l/fdskL.c\<close>: the partition tables of a disk. A device is its bytes and the
  position of the open descriptor; what is printed is a list of rows with the numbers the code
  computes for them. \<^verbatim>\<open>uuid_unparse\<close> is libuuid's and an argument of the definitions
  that call it.
\<close>

section \<open>Structures\<close>

definition SECTOR_SIZE :: nat where "SECTOR_SIZE = 512"
definition MBR_SIGN :: "16 word" where "MBR_SIGN = 0xAA55"
definition GPT_SIGN :: "64 word" where "GPT_SIGN = 0x5452415020494645"

record MBRPartitionEntry =
  boot_indicator :: byte
  start_head :: byte
  start_sector_cylinder :: "16 word"
  system_id :: byte
  end_head :: byte
  end_sector_cylinder :: "16 word"
  start_sector :: "32 word"
  total_sectors :: "32 word"

definition mbr_entry_of :: "byte list \<Rightarrow> MBRPartitionEntry" where
  "mbr_entry_of b = \<lparr>boot_indicator = load8 0 b, start_head = load8 1 b,
     start_sector_cylinder = load16 2 b, system_id = load8 4 b, end_head = load8 5 b,
     end_sector_cylinder = load16 6 b, start_sector = load32 8 b, total_sectors = load32 12 b\<rparr>"

record GPTHeader =
  gh_signature :: "64 word"
  gh_revision :: "32 word"
  gh_header_size :: "32 word"
  gh_header_crc32 :: "32 word"
  gh_reserved :: "32 word"
  gh_current_lba :: "64 word"
  gh_backup_lba :: "64 word"
  gh_first_usable_lba :: "64 word"
  gh_last_usable_lba :: "64 word"
  gh_disk_guid :: "byte list"
  gh_partition_entry_lba :: "64 word"
  gh_num_partition_entries :: "32 word"
  gh_partition_entry_size :: "32 word"
  gh_partition_array_crc32 :: "32 word"

definition gpt_header_of :: "byte list \<Rightarrow> GPTHeader" where
  "gpt_header_of b = \<lparr>gh_signature = load64 0 b, gh_revision = load32 8 b, gh_header_size = load32 12 b,
     gh_header_crc32 = load32 16 b, gh_reserved = load32 20 b, gh_current_lba = load64 24 b,
     gh_backup_lba = load64 32 b, gh_first_usable_lba = load64 40 b, gh_last_usable_lba = load64 48 b,
     gh_disk_guid = take 16 (drop 56 b), gh_partition_entry_lba = load64 72 b,
     gh_num_partition_entries = load32 80 b, gh_partition_entry_size = load32 84 b,
     gh_partition_array_crc32 = load32 88 b\<rparr>"

record GPTPartitionEntry =
  ge_type_guid :: "byte list"
  ge_unique_guid :: "byte list"
  ge_starting_lba :: "64 word"
  ge_ending_lba :: "64 word"
  ge_attributes :: "64 word"
  ge_name :: "byte list"

definition gpt_entry_of :: "byte list \<Rightarrow> GPTPartitionEntry" where
  "gpt_entry_of b = \<lparr>ge_type_guid = take 16 b, ge_unique_guid = take 16 (drop 16 b),
     ge_starting_lba = load64 32 b, ge_ending_lba = load64 40 b, ge_attributes = load64 48 b,
     ge_name = take 72 (drop 56 b)\<rparr>"

datatype PartitionTableType = UNKNOWN | MBR | GPT

section \<open>Reading the device\<close>

record dev =
  dv_data :: "byte list"
  dv_pos :: nat

text \<open>
  \<^verbatim>\<open>lseek(fd, off, SEEK_SET)\<close>: a negative \<^verbatim>\<open>off_t\<close> is refused and the position
  kept; \<^verbatim>\<open>read\<close> returns fewer bytes at the end of the device only.
\<close>

definition lseek_set :: "64 word \<Rightarrow> dev \<Rightarrow> dev" where
  "lseek_set off d = (if sint off < 0 then d else d\<lparr>dv_pos := unat off\<rparr>)"

definition read_fd :: "nat \<Rightarrow> dev \<Rightarrow> byte list \<times> dev" where
  "read_fd n d =
     (let b = take n (drop (dv_pos d) (dv_data d)) in (b, d\<lparr>dv_pos := dv_pos d + length b\<rparr>))"

section \<open>Rows\<close>

definition get_mbr_partition_type :: "byte \<Rightarrow> string" where
  "get_mbr_partition_type sid =
     (if sid = 0x5 \<or> sid = 0xF then ''Extended'' else if sid = 0x83 then ''Linux'' else ''Unknown'')"

definition get_gpt_partition_type :: "string \<Rightarrow> string" where
  "get_gpt_partition_type guid_str =
     (if strcmp guid_str ''af3dc60f-8384-7247-8e79-3d69d8477de4'' = 0 then ''Linux filesystem''
      else if strcmp guid_str ''28732ac1-1ff8-d211-ba4b-00a0c93ec93b'' = 0 then ''EFI System''
      else if strcmp guid_str ''48616821-4964-6f6e-744e-656564454649'' = 0 then ''BIOS boot''
      else guid_str)"

datatype fd_row =
    Disk_Info string "64 word" "64 word" "string option" int int
  | Disklabel_Dos "32 word"
  | Disklabel_Gpt string
  | Mbr_Row string "32 word" "32 word" "32 word" "32 word" byte string
  | Gpt_Row string "64 word" "64 word" "64 word" string
  | Read_Error string
  | Unknown_Table

text \<open>\<^verbatim>\<open>char part_device[20]; snprintf(part_device, sizeof(part_device), "%s%d", device, n)\<close>\<close>

definition part_name :: "string \<Rightarrow> int \<Rightarrow> string" where
  "part_name device n = take 19 (device @ dec_str n)"

definition print_mbr_partition_info :: "MBRPartitionEntry \<Rightarrow> string \<Rightarrow> fd_row" where
  "print_mbr_partition_info e device =
     Mbr_Row device (start_sector e) (start_sector e + total_sectors e - 1) (total_sectors e)
       (ucast ((ucast (total_sectors e) :: 64 word) * of_nat SECTOR_SIZE div (1024 * 1024 * 1024)))
       (system_id e) (get_mbr_partition_type (system_id e))"

definition print_gpt_partition_info :: "(byte list \<Rightarrow> string) \<Rightarrow> GPTPartitionEntry \<Rightarrow> string \<Rightarrow> fd_row" where
  "print_gpt_partition_info uuid_unparse e device =
     Gpt_Row device (ge_starting_lba e) (ge_ending_lba e) (ge_ending_lba e - ge_starting_lba e + 1)
       (get_gpt_partition_type (uuid_unparse (ge_type_guid e)))"

text \<open>The model name is \<open>None\<close> when the structure it is printed from was never filled.\<close>

definition print_disk_info :: "string \<Rightarrow> 64 word \<Rightarrow> string option \<Rightarrow> int \<Rightarrow> int \<Rightarrow> fd_row" where
  "print_disk_info device size_in_bytes model logical physical =
     Disk_Info device size_in_bytes (size_in_bytes div of_nat SECTOR_SIZE) (map_option (take 40) model)
       logical physical"

section \<open>Which table\<close>

definition detect_partition_table_type :: "dev \<Rightarrow> PartitionTableType \<times> fd_row list \<times> dev" where
  "detect_partition_table_type d =
     (case read_fd SECTOR_SIZE d of (buffer, d1) \<Rightarrow>
        if length buffer \<noteq> SECTOR_SIZE then (UNKNOWN, [Read_Error ''Error reading first sector''], d1)
        else if load16 510 buffer = MBR_SIGN then
          (case read_fd SECTOR_SIZE (lseek_set (of_nat SECTOR_SIZE) d1) of (buffer2, d2) \<Rightarrow>
             if length buffer2 \<noteq> SECTOR_SIZE then (UNKNOWN, [Read_Error ''Error reading second sector''], d2)
             else if load64 0 buffer2 = GPT_SIGN then (GPT, [], d2) else (MBR, [], d2))
        else (UNKNOWN, [], d1))"

section \<open>MBR\<close>

text \<open>\<^verbatim>\<open>buffer + 446 + i * 16\<close>\<close>

definition entry_at :: "byte list \<Rightarrow> nat \<Rightarrow> MBRPartitionEntry" where
  "entry_at buffer i = mbr_entry_of (drop (446 + i * 16) buffer)"

fun primary_rows :: "string \<Rightarrow> byte list \<Rightarrow> nat list \<Rightarrow> fd_row list" where
  "primary_rows device buffer [] = []"
| "primary_rows device buffer (i # is) =
     (if total_sectors (entry_at buffer i) \<noteq> 0
      then [print_mbr_partition_info (entry_at buffer i) (part_name device (int i + 1))] else []) @
     primary_rows device buffer is"

text \<open>
  The walk along the extended boot records. The C variable \<^verbatim>\<open>entry\<close> points into
  \<^verbatim>\<open>buffer\<close>, which each turn overwrites, so its start sector is read from the record just
  loaded; \<^verbatim>\<open>logical_entry\<close> is changed in place, which no later read sees unless
  \<open>i = 0\<close>. A walk that never ends is \<open>None\<close>.
\<close>

definition put_start :: "32 word \<Rightarrow> byte list \<Rightarrow> byte list" where
  "put_start s buffer = take 454 buffer @ bytes32 s @ drop 458 buffer"

definition ebr_body :: "string \<Rightarrow> 32 word \<Rightarrow> int \<Rightarrow> byte list \<Rightarrow> fd_row list \<times> int \<times> byte list" where
  "ebr_body device ebr_sector logical_count buffer =
     (let le = entry_at buffer 0 in
      if total_sectors le \<noteq> 0 then
        let buffer' = put_start (start_sector le + ebr_sector) buffer
        in ([print_mbr_partition_info (entry_at buffer' 0) (part_name device logical_count)],
            logical_count + 1, buffer')
      else ([], logical_count, buffer))"

partial_function (option) ebr_loop :: "string \<Rightarrow> nat \<Rightarrow> 32 word \<Rightarrow> int \<Rightarrow> byte list \<Rightarrow> dev \<Rightarrow>
    (fd_row list \<times> byte list \<times> dev) option" where
  "ebr_loop device i ebr_sector logical_count buffer d =
     (if ebr_sector = 0 then Some ([], buffer, d)
      else (case read_fd SECTOR_SIZE (lseek_set (ucast ebr_sector * of_nat SECTOR_SIZE) d) of (b1, d1) \<Rightarrow>
        if length b1 \<noteq> SECTOR_SIZE
        then Some ([Read_Error ''Error reading EBR''], b1 @ drop (length b1) buffer, d1)
        else (case ebr_body device ebr_sector logical_count b1 of (rows, count', b2) \<Rightarrow>
          let nxt = load32 462 b2;
              nxt' = (if nxt \<noteq> 0 then nxt + start_sector (entry_at b2 i) else nxt)
          in Option.bind (ebr_loop device i nxt' count' b2 d1) (\<lambda>(rows', b3, d3).
               Some (rows @ rows', b3, d3)))))"

fun extended_rows :: "string \<Rightarrow> nat list \<Rightarrow> byte list \<Rightarrow> dev \<Rightarrow> fd_row list option" where
  "extended_rows device [] buffer d = Some []"
| "extended_rows device (i # is) buffer d =
     (let e = entry_at buffer i in
      if system_id e = 0x5 \<or> system_id e = 0xF then
        Option.bind (ebr_loop device i (start_sector e) 5 buffer d) (\<lambda>(rows, b', d').
        Option.bind (extended_rows device is b' d') (\<lambda>rows'. Some (rows @ rows')))
      else extended_rows device is buffer d)"

definition handle_mbr :: "string \<Rightarrow> dev \<Rightarrow> fd_row list option" where
  "handle_mbr device d =
     (case read_fd SECTOR_SIZE (lseek_set 0 d) of (buffer, d1) \<Rightarrow>
        if length buffer \<noteq> SECTOR_SIZE then Some [Read_Error ''Error reading MBR'']
        else Option.bind (extended_rows device [0..<4] buffer d1) (\<lambda>rows.
          Some (Disklabel_Dos (load32 440 buffer) # primary_rows device buffer [0..<4] @ rows)))"

section \<open>GPT\<close>

text \<open>
  \<open>n\<close> entries still to be read, the next one is number \<open>i\<close>; each is read behind the
  last one.
\<close>

fun gpt_entries :: "(byte list \<Rightarrow> string) \<Rightarrow> string \<Rightarrow> nat \<Rightarrow> nat \<Rightarrow> dev \<Rightarrow> fd_row list" where
  "gpt_entries uuid_unparse device 0 i d = []"
| "gpt_entries uuid_unparse device (Suc n) i d =
     (case read_fd 128 d of (b, d1) \<Rightarrow>
        if length b \<noteq> 128 then [Read_Error ''Error reading partition entry'']
        else (let e = gpt_entry_of b in
          (if ge_starting_lba e \<noteq> 0 \<or> ge_ending_lba e \<noteq> 0
           then [print_gpt_partition_info uuid_unparse e (part_name device (int i + 1))] else []) @
          gpt_entries uuid_unparse device n (Suc i) d1))"

definition handle_gpt :: "(byte list \<Rightarrow> string) \<Rightarrow> string \<Rightarrow> dev \<Rightarrow> fd_row list" where
  "handle_gpt uuid_unparse device d =
     (case read_fd 92 (lseek_set (of_nat SECTOR_SIZE) d) of (b, d1) \<Rightarrow>
        if length b \<noteq> 92 then [Read_Error ''Error reading GPT header'']
        else (let h = gpt_header_of b in
          Disklabel_Gpt (uuid_unparse (gh_disk_guid h)) #
          gpt_entries uuid_unparse device (unat (gh_num_partition_entries h)) 0
            (lseek_set (gh_partition_entry_lba h * of_nat SECTOR_SIZE) d1)))"

section \<open>Devices\<close>

text \<open>What the system calls say of one device.\<close>

record dev_env =
  de_data :: "byte list option"
  de_size :: "64 word option"
  de_logical :: "int option"
  de_physical :: "int option"
  de_model :: "string option"

definition process_device :: "(byte list \<Rightarrow> string) \<Rightarrow> (string \<Rightarrow> dev_env) \<Rightarrow> string \<Rightarrow> fd_row list option" where
  "process_device uuid_unparse env device =
     (let e = env device in
      case de_data e of None \<Rightarrow> Some [Read_Error ''Error opening device'']
      | Some bytes \<Rightarrow>
     (case de_size e of None \<Rightarrow> Some [Read_Error ''Error getting device size'']
      | Some size_in_bytes \<Rightarrow>
     (case (de_logical e, de_physical e) of
        (Some logical, Some physical) \<Rightarrow>
          let info = (case de_model e of None \<Rightarrow> [Read_Error ''Error getting disk identity''] | Some _ \<Rightarrow> []) @
                     [print_disk_info device size_in_bytes (de_model e) logical physical]
          in (case detect_partition_table_type \<lparr>dv_data = bytes, dv_pos = 0\<rparr> of
                (MBR, rows, d) \<Rightarrow> map_option (\<lambda>r. info @ rows @ r) (handle_mbr device d)
              | (GPT, rows, d) \<Rightarrow> Some (info @ rows @ handle_gpt uuid_unparse device d)
              | (UNKNOWN, rows, d) \<Rightarrow> Some (info @ rows @ [Unknown_Table]))
      | _ \<Rightarrow> Some [Read_Error ''Error getting sector sizes''])))"

definition is_sd_name :: "string \<Rightarrow> bool" where
  "is_sd_name name \<longleftrightarrow> take 2 name = ''sd'' \<and> length name = 3"

fun iterate_devices :: "(byte list \<Rightarrow> string) \<Rightarrow> (string \<Rightarrow> dev_env) \<Rightarrow> string list \<Rightarrow> fd_row list option" where
  "iterate_devices uuid_unparse env [] = Some []"
| "iterate_devices uuid_unparse env (name # names) =
     (if is_sd_name name then
        Option.bind (process_device uuid_unparse env (''/dev/'' @ name)) (\<lambda>rows.
        Option.bind (iterate_devices uuid_unparse env names) (\<lambda>rows'. Some (rows @ rows')))
      else iterate_devices uuid_unparse env names)"

text \<open>
  \<^verbatim>\<open>main\<close>: the exit status and the rows; \<open>dev_dir\<close> is the listing of
  \<^verbatim>\<open>/dev\<close>. \<open>None\<close>: it does not return.
\<close>

definition fdisk_main :: "(byte list \<Rightarrow> string) \<Rightarrow> (string \<Rightarrow> dev_env) \<Rightarrow> string list option \<Rightarrow> string list \<Rightarrow>
    (int \<times> fd_row list) option" where
  "fdisk_main uuid_unparse env dev_dir argv =
     (if length argv = 1 then
        (case dev_dir of
           None \<Rightarrow> Some (1, [Read_Error ''opendir(/dev)''])
         | Some names \<Rightarrow> map_option (\<lambda>rows. (0, rows)) (iterate_devices uuid_unparse env names))
      else if length argv = 2 then
        map_option (\<lambda>rows. (0, rows)) (process_device uuid_unparse env (argv ! 1))
      else Some (1, []))"

section \<open>Layouts\<close>

definition mbr_entry_bytes :: "MBRPartitionEntry \<Rightarrow> byte list" where
  "mbr_entry_bytes e = [boot_indicator e, start_head e] @ bytes16 (start_sector_cylinder e) @
     [system_id e, end_head e] @ bytes16 (end_sector_cylinder e) @ bytes32 (start_sector e) @
     bytes32 (total_sectors e)"

definition gpt_header_bytes :: "GPTHeader \<Rightarrow> byte list" where
  "gpt_header_bytes h = bytes64 (gh_signature h) @ bytes32 (gh_revision h) @ bytes32 (gh_header_size h) @
     bytes32 (gh_header_crc32 h) @ bytes32 (gh_reserved h) @ bytes64 (gh_current_lba h) @
     bytes64 (gh_backup_lba h) @ bytes64 (gh_first_usable_lba h) @ bytes64 (gh_last_usable_lba h) @
     gh_disk_guid h @ bytes64 (gh_partition_entry_lba h) @ bytes32 (gh_num_partition_entries h) @
     bytes32 (gh_partition_entry_size h) @ bytes32 (gh_partition_array_crc32 h)"

definition gpt_entry_bytes :: "GPTPartitionEntry \<Rightarrow> byte list" where
  "gpt_entry_bytes e = ge_type_guid e @ ge_unique_guid e @ bytes64 (ge_starting_lba e) @
     bytes64 (ge_ending_lba e) @ bytes64 (ge_attributes e) @ ge_name e"

definition gpt_header_valid :: "GPTHeader \<Rightarrow> bool" where
  "gpt_header_valid h \<longleftrightarrow> length (gh_disk_guid h) = 16"

definition gpt_entry_valid :: "GPTPartitionEntry \<Rightarrow> bool" where
  "gpt_entry_valid e \<longleftrightarrow> length (ge_type_guid e) = 16 \<and> length (ge_unique_guid e) = 16 \<and> length (ge_name e) = 72"

lemma load8_cons: "load8 0 (b # r) = b" "0 < off \<Longrightarrow> load8 off (b # r) = load8 (off - 1) r"
  by (auto simp: load8_def)

lemma load8_skip: "length p \<le> off \<Longrightarrow> load8 off (p @ s) = load8 (off - length p) s"
  by (simp add: load8_def nth_append)

lemma load_skip_cons:
  "0 < off \<Longrightarrow> load16 off (b # s) = load16 (off - 1) s"
  "0 < off \<Longrightarrow> load32 off (b # s) = load32 (off - 1) s"
  by (cases off; simp add: load_defs)+

lemmas loads = load8_cons load8_skip load_skip_cons load_skip load_first

interpretation mbr: packed_struct mbr_entry_bytes mbr_entry_of 16 "\<lambda>_. True"
  by unfold_locales (simp_all add: mbr_entry_bytes_def mbr_entry_of_def loads)

interpretation gpt_header: packed_struct gpt_header_bytes gpt_header_of 92 gpt_header_valid
  by unfold_locales (simp_all add: gpt_header_bytes_def gpt_header_of_def gpt_header_valid_def loads)

interpretation gpt_entry: packed_struct gpt_entry_bytes gpt_entry_of 128 gpt_entry_valid
  by unfold_locales (simp_all add: gpt_entry_bytes_def gpt_entry_of_def gpt_entry_valid_def loads)

section \<open>Detection\<close>

text \<open>The bytes of \<^verbatim>\<open>EFI PART\<close>.\<close>

definition efi_part :: "byte list" where
  "efi_part = [0x45, 0x46, 0x49, 0x20, 0x50, 0x41, 0x52, 0x54]"

lemma load16_sign: "512 \<le> length b \<Longrightarrow> load16 510 b = MBR_SIGN \<longleftrightarrow> b ! 510 = 0x55 \<and> b ! 511 = 0xAA"
proof -
  assume l: "512 \<le> length b"
  then have t: "take 2 (drop 510 b) = [b ! 510, b ! 511]"
    by (simp add: list_eq_iff_nth_eq less_Suc_eq numeral_2_eq_2)
  have m: "bytes16 MBR_SIGN = [0x55, 0xAA]"
    by (simp add: bytes16_def MBR_SIGN_def le_bytes_numeral)
  have "load16 510 b = MBR_SIGN \<longleftrightarrow> bytes16 (load16 510 b) = bytes16 MBR_SIGN"
    by (rule bytes_inject [symmetric])
  also have "\<dots> \<longleftrightarrow> [b ! 510, b ! 511] = [0x55, 0xAA]"
    using l t by (simp only: m bytes_load)
  finally show ?thesis by simp
qed

lemma zeros_no_gpt: "take 8 (replicate 512 0 @ r) \<noteq> efi_part"
proof
  assume "take 8 (replicate 512 0 @ r) = efi_part"
  then have "hd (take 8 (replicate 512 0 @ r)) = hd efi_part" by simp
  then show False by (simp add: efi_part_def)
qed

lemma load64_sign: "512 \<le> length b \<Longrightarrow> load64 0 b = GPT_SIGN \<longleftrightarrow> take 8 b = efi_part"
proof -
  assume l: "512 \<le> length b"
  have m: "bytes64 GPT_SIGN = efi_part"
    by (simp add: bytes64_def GPT_SIGN_def efi_part_def le_bytes_numeral)
  have "load64 0 b = GPT_SIGN \<longleftrightarrow> bytes64 (load64 0 b) = bytes64 GPT_SIGN"
    by (rule bytes_inject [symmetric])
  also have "\<dots> \<longleftrightarrow> take 8 (drop 0 b) = efi_part"
    using l by (simp only: m bytes_load)
  finally show ?thesis by simp
qed

text \<open>The type found is decided by the bytes on the disk: GPT when there are two sectors,
  the first ends with 55 AA and the second begins with \<^verbatim>\<open>EFI PART\<close>, MBR when the first
  ends so and the second does not begin so, unknown otherwise (also for a valid MBR on a device of
  less than two sectors).\<close>

theorem detect_correct:
  "fst (detect_partition_table_type \<lparr>dv_data = bs, dv_pos = 0\<rparr>) =
     (if 1024 \<le> length bs \<and> bs ! 510 = 0x55 \<and> bs ! 511 = 0xAA
      then if take 8 (drop 512 bs) = efi_part then GPT else MBR
      else UNKNOWN)"
proof (cases "512 \<le> length bs")
  case False
  then show ?thesis by (simp add: detect_partition_table_type_def read_fd_def SECTOR_SIZE_def)
next
  case True
  let ?b = "take 512 bs" and ?b2 = "take 512 (drop 512 bs)"
  have l: "lseek_set 512 \<lparr>dv_data = bs, dv_pos = 512\<rparr> = \<lparr>dv_data = bs, dv_pos = 512\<rparr>"
    by (simp add: lseek_set_def)
  have s: "load16 510 ?b = MBR_SIGN \<longleftrightarrow> bs ! 510 = 0x55 \<and> bs ! 511 = 0xAA"
    using True by (subst load16_sign) auto
  have g: "load64 0 ?b2 = GPT_SIGN \<longleftrightarrow> take 8 (drop 512 bs) = efi_part" if "1024 \<le> length bs"
    using that by (subst load64_sign) auto
  show ?thesis
    using True s g by (auto simp: detect_partition_table_type_def read_fd_def SECTOR_SIZE_def l)
qed

section \<open>MBR disks\<close>

text \<open>A boot record: 446 bytes, four entries, the signature.\<close>

definition mk_sector :: "byte list \<Rightarrow> MBRPartitionEntry list \<Rightarrow> byte list" where
  "mk_sector boot es = boot @ concat (map mbr_entry_bytes es) @ [0x55, 0xAA]"

definition is_extended :: "MBRPartitionEntry \<Rightarrow> bool" where
  "is_extended e \<longleftrightarrow> system_id e = 0x5 \<or> system_id e = 0xF"

text \<open>The rows of a list of entries, the first of them number \<open>k\<close>.\<close>

fun used_rows :: "string \<Rightarrow> nat \<Rightarrow> MBRPartitionEntry list \<Rightarrow> fd_row list" where
  "used_rows device k [] = []"
| "used_rows device k (e # es) =
     (if total_sectors e \<noteq> 0 then [print_mbr_partition_info e (part_name device (int k))] else []) @
     used_rows device (Suc k) es"

lemma length_mk_sector: "length boot = 446 \<Longrightarrow> length es = 4 \<Longrightarrow> length (mk_sector boot es) = 512"
  by (simp add: mk_sector_def mbr.length_array list_all_iff)

lemma entry_at_mk:
  "length boot = 446 \<Longrightarrow> i < length es \<Longrightarrow> entry_at (mk_sector boot es) i = es ! i"
  using mbr.dec_array [of es i "[0x55, 0xAA]"] by (simp add: entry_at_def mk_sector_def list_all_iff)

lemma upt_0_4: "[0..<4] = [0, 1, 2, 3]"
  by (simp add: upt_rec)

lemma length_4: "length es = 4 \<longleftrightarrow> (\<exists>a b c d. es = [a, b, c, d])"
  by (auto simp: numeral_eq_Suc length_Suc_conv)

lemma primary_rows_mk:
  assumes "length boot = 446" and "length es = 4"
  shows "primary_rows device (mk_sector boot es) [0..<4] = used_rows device 1 es"
proof -
  from assms(2) obtain a b c d where es: "es = [a, b, c, d]" by (auto simp: length_4)
  show ?thesis
    using entry_at_mk [OF assms(1), of 0 es] entry_at_mk [OF assms(1), of 1 es]
      entry_at_mk [OF assms(1), of 2 es] entry_at_mk [OF assms(1), of 3 es]
    by (simp add: upt_0_4 es)
qed

lemma seek_low: "unat off < 2 ^ 63 \<Longrightarrow> lseek_set off d = d\<lparr>dv_pos := unat off\<rparr>"
proof -
  assume "unat off < 2 ^ 63"
  then have "uint off < 2 ^ 63" by (metis (mono_tags) of_nat_less_iff of_nat_numeral of_nat_power uint_nat)
  moreover have "- (2 ^ 63) \<le> uint off" by (rule order_trans [of _ 0]) simp_all
  ultimately have "sint off = uint off" by (simp add: sint_uint signed_take_bit_int_eq_self)
  then show ?thesis by (simp add: lseek_set_def)
qed

lemma unat_sector: "unat ((ucast s :: 64 word) * of_nat SECTOR_SIZE) = unat (s :: 32 word) * 512"
proof -
  have "unat s < 4294967296" using unsigned_less [of s, where ?'a = nat] by simp
  then show ?thesis
    by (simp add: SECTOR_SIZE_def unat_word_ariths(2) unsigned_ucast_eq take_bit_nat_eq_self)
qed

lemma seek_sector:
  "lseek_set (ucast (s :: 32 word) * of_nat SECTOR_SIZE) d = d\<lparr>dv_pos := unat s * 512\<rparr>"
proof -
  have "unat s < 4294967296" using unsigned_less [of s, where ?'a = nat] by simp
  then show ?thesis by (subst seek_low) (simp_all add: unat_sector)
qed

lemma seek_zero: "lseek_set 0 d = d\<lparr>dv_pos := 0\<rparr>"
  by (simp add: lseek_set_def)

lemma handle_mbr_run:
  assumes "length boot = 446" and "length es = 4"
  shows "handle_mbr device \<lparr>dv_data = mk_sector boot es @ rest, dv_pos = p\<rparr> =
    Option.bind (extended_rows device [0..<4] (mk_sector boot es)
      \<lparr>dv_data = mk_sector boot es @ rest, dv_pos = 512\<rparr>) (\<lambda>rows.
    Some (Disklabel_Dos (load32 440 boot) # used_rows device 1 es @ rows))"
proof -
  have "load32 440 (mk_sector boot es) = load32 440 boot"
    using assms(1) by (simp add: load_defs mk_sector_def)
  then show ?thesis
    using length_mk_sector [OF assms] primary_rows_mk [OF assms, of device]
    by (simp add: handle_mbr_def read_fd_def SECTOR_SIZE_def seek_zero Let_def)
qed

lemma extended_rows_none:
  "\<forall>i \<in> set is. \<not> is_extended (entry_at buffer i) \<Longrightarrow> extended_rows device is buffer d = Some []"
  by (induction "is") (simp_all add: is_extended_def)

lemma extended_rows_skip:
  "\<forall>i \<in> set is. \<not> is_extended (entry_at buffer i) \<Longrightarrow>
   extended_rows device (is @ js) buffer d = extended_rows device js buffer d"
  by (induction "is") (simp_all add: is_extended_def)

lemma handle_mbr_rows:
  assumes "length boot = 446" and "length es = 4" and "\<forall>e \<in> set es. \<not> is_extended e"
  shows "handle_mbr device \<lparr>dv_data = mk_sector boot es @ rest, dv_pos = p\<rparr> =
    Some (Disklabel_Dos (load32 440 boot) # used_rows device 1 es)"
proof -
  have "\<forall>i \<in> set [0..<4]. \<not> is_extended (entry_at (mk_sector boot es) i)"
    using assms by (auto simp: entry_at_mk)
  from extended_rows_none [OF this] show ?thesis by (simp add: handle_mbr_run [OF assms(1,2)])
qed

definition zero_entry :: MBRPartitionEntry where
  "zero_entry = \<lparr>boot_indicator = 0, start_head = 0, start_sector_cylinder = 0, system_id = 0,
     end_head = 0, end_sector_cylinder = 0, start_sector = 0, total_sectors = 0\<rparr>"

definition linux_entry :: "32 word \<Rightarrow> 32 word \<Rightarrow> MBRPartitionEntry" where
  "linux_entry s n = zero_entry\<lparr>system_id := 0x83, start_sector := s, total_sectors := n\<rparr>"

definition boot_code :: "byte list" where
  "boot_code = replicate 440 0 @ [0x9b, 0x73, 0xc6, 0x3a, 0, 0]"

section \<open>Extended boot records\<close>

text \<open>The link the code follows: the first four bytes of the second entry.\<close>

definition chs_word :: "MBRPartitionEntry \<Rightarrow> 32 word" where
  "chs_word e = load32 0 (mbr_entry_bytes e)"

lemma put_start_mk:
  "length boot = 446 \<Longrightarrow>
   put_start v (mk_sector boot (e # es)) = mk_sector boot (e\<lparr>start_sector := v\<rparr> # es)"
  by (simp add: put_start_def mk_sector_def mbr_entry_bytes_def)

lemma link_mk:
  "length boot = 446 \<Longrightarrow> load32 462 (mk_sector boot (e # l # es)) = chs_word l"
  by (simp add: mk_sector_def chs_word_def load_defs mbr.length_enc)

lemma chs_word_zero:
  "boot_indicator l = 0 \<Longrightarrow> start_head l = 0 \<Longrightarrow> start_sector_cylinder l = 0 \<Longrightarrow> chs_word l = 0"
  by (simp add: chs_word_def mbr_entry_bytes_def load_defs bytes16_def le_bytes_numeral)

lemma ebr_body_mk:
  assumes "length boot = 446" and "length es = 3"
  shows "ebr_body device s n (mk_sector boot (le # es)) =
    (if total_sectors le \<noteq> 0
     then ([print_mbr_partition_info (le\<lparr>start_sector := start_sector le + s\<rparr>) (part_name device n)], n + 1,
           mk_sector boot (le\<lparr>start_sector := start_sector le + s\<rparr> # es))
     else ([], n, mk_sector boot (le # es)))"
  using entry_at_mk [OF assms(1), of 0 "le # es"]
    entry_at_mk [OF assms(1), of 0 "le\<lparr>start_sector := start_sector le + s\<rparr> # es"]
  by (simp add: ebr_body_def put_start_mk [OF assms(1)] Let_def)

text \<open>One turn of the walk on a record found at the sector.\<close>

lemma ebr_loop_step:
  assumes "s \<noteq> 0" and "length boot = 446" and "length es = 2"
    and "take 512 (drop (unat s * 512) (dv_data d)) = mk_sector boot (le # l # es)"
    and "ebr_body device s n (mk_sector boot (le # l # es)) = (rows, n', mk_sector boot (le' # l # es))"
  shows "ebr_loop device i s n buf d =
    Option.bind (ebr_loop device i
        (if chs_word l \<noteq> 0 then chs_word l + start_sector (entry_at (mk_sector boot (le' # l # es)) i) else 0)
        n' (mk_sector boot (le' # l # es)) (d\<lparr>dv_pos := unat s * 512 + 512\<rparr>))
      (\<lambda>(rows', b3, d3). Some (rows @ rows', b3, d3))"
proof -
  have len: "length (mk_sector boot (le # l # es)) = 512"
    using assms(2,3) by (simp add: length_mk_sector)
  have rd: "read_fd SECTOR_SIZE (lseek_set (ucast s * of_nat SECTOR_SIZE) d) =
      (mk_sector boot (le # l # es), d\<lparr>dv_pos := unat s * 512 + 512\<rparr>)"
    using assms(4) len by (simp only: seek_sector) (simp add: read_fd_def SECTOR_SIZE_def Let_def)
  have "length (mk_sector boot (le # l # es)) = SECTOR_SIZE" by (simp add: SECTOR_SIZE_def len)
  with assms(1) show ?thesis
    by (subst ebr_loop.simps) (simp add: rd assms(5) link_mk [OF assms(2)] Let_def)
qed

lemma handle_mbr_logical:
  assumes "length boot = 446" and "es = [e1, e2, e3, e4]" and "j < 4"
    and "\<forall>i < 4. is_extended (es ! i) \<longleftrightarrow> i = j" and "start_sector (es ! j) = s" and "s \<noteq> 0"
    and "length boot2 = 446" and "total_sectors le \<noteq> 0"
    and "boot_indicator l = 0" and "start_head l = 0" and "start_sector_cylinder l = 0"
    and "\<forall>i < 4. j < i \<longrightarrow> \<not> is_extended ([le, l, l3, l4] ! i)"
    and "take 512 (drop (unat s * 512) (mk_sector boot es @ rest)) = mk_sector boot2 [le, l, l3, l4]"
  shows "handle_mbr device \<lparr>dv_data = mk_sector boot es @ rest, dv_pos = p\<rparr> =
    Some (Disklabel_Dos (load32 440 boot) # used_rows device 1 es @
      [print_mbr_partition_info (le\<lparr>start_sector := start_sector le + s\<rparr>) (part_name device 5)])"
proof -
  let ?b = "mk_sector boot es" and ?d = "\<lparr>dv_data = mk_sector boot es @ rest, dv_pos = 512\<rparr>"
  let ?le = "le\<lparr>start_sector := start_sector le + s\<rparr>"
  let ?b2 = "mk_sector boot2 [?le, l, l3, l4]" and ?row = "print_mbr_partition_info ?le (part_name device 5)"
  have es: "length es = 4" by (simp add: assms(2))
  have at: "entry_at ?b i = es ! i" if "i < 4" for i using entry_at_mk [OF assms(1)] that es by simp
  have body: "ebr_body device s 5 (mk_sector boot2 [le, l, l3, l4]) = ([?row], 6, ?b2)"
    using assms(8) by (simp add: ebr_body_mk [OF assms(7)])
  have z: "chs_word l = 0" by (rule chs_word_zero) (fact assms(9-11))+
  have "take 512 (drop (unat s * 512) (dv_data ?d)) = mk_sector boot2 [le, l, l3, l4]"
    using assms(13) by simp
  from ebr_loop_step [OF assms(6,7) _ this body] z
  have loop: "ebr_loop device j s 5 ?b ?d = Some ([?row], ?b2, ?d\<lparr>dv_pos := unat s * 512 + 512\<rparr>)"
    by (simp add: ebr_loop.simps)
  have later: "\<forall>i \<in> set [Suc j..<4]. \<not> is_extended (entry_at ?b2 i)"
  proof
    fix i assume "i \<in> set [Suc j..<4]"
    then have i: "i < 4" "j < i" by auto
    then have "\<not> is_extended ([le, l, l3, l4] ! i)" using assms(12) by blast
    moreover have "[?le, l, l3, l4] ! i = [le, l, l3, l4] ! i" using i by (cases i) auto
    ultimately show "\<not> is_extended (entry_at ?b2 i)"
      using entry_at_mk [OF assms(7), of i "[?le, l, l3, l4]"] i(1) by simp
  qed
  have "\<forall>i \<in> set [0..<j]. \<not> is_extended (entry_at ?b i)" using assms(3,4) at by auto
  from extended_rows_skip [OF this] have
    "extended_rows device ([0..<j] @ j # [Suc j..<4]) ?b ?d = extended_rows device (j # [Suc j..<4]) ?b ?d" .
  also have "\<dots> = Some [?row]"
    using assms(3-5) at [OF assms(3)] loop extended_rows_none [OF later]
    by (simp add: is_extended_def)
  also have "[0..<j] @ j # [Suc j..<4] = [0..<4]"
    using assms(3) upt_add_eq_append [of 0 j "4 - j"] by (simp add: upt_conv_Cons)
  finally show ?thesis by (simp add: handle_mbr_run [OF assms(1) es])
qed

text \<open>The disk of the example in the README, cut to its tables: sdb4 is extended and holds sdb5.\<close>

definition small_disk :: "MBRPartitionEntry \<Rightarrow> byte list" where
  "small_disk l = mk_sector boot_code
      [linux_entry 8 4, zero_entry, zero_entry, (linux_entry 2 100)\<lparr>system_id := 5\<rparr>] @
    replicate 512 0 @ mk_sector boot_code [linux_entry 3 7, l, zero_entry, zero_entry]"

section \<open>A walk that never ends\<close>

text \<open>A boot record whose link, taken as the code takes it, leads back to itself.\<close>

definition self_linked :: "nat \<Rightarrow> 32 word \<Rightarrow> byte list \<Rightarrow> bool" where
  "self_linked i s data \<longleftrightarrow> s \<noteq> 0 \<and> 0 < i \<and> i < 4 \<and>
     (\<exists>boot le l l3 l4. length boot = 446 \<and> chs_word l \<noteq> 0 \<and>
        chs_word l + start_sector ([le, l, l3, l4] ! i) = s \<and>
        take 512 (drop (unat s * 512) data) = mk_sector boot [le, l, l3, l4])"

lemma ebr_loop_self_linked:
  assumes "ebr_loop device i s n buf d = Some r"
  shows "\<not> self_linked i s (dv_data d)"
proof (rule ebr_loop.raw_induct [OF _ assms, where P = "\<lambda>_ i s _ _ d _. \<not> self_linked i s (dv_data d)"])
  fix loop :: "string \<Rightarrow> nat \<Rightarrow> 32 word \<Rightarrow> int \<Rightarrow> byte list \<Rightarrow> dev \<Rightarrow> (fd_row list \<times> byte list \<times> dev) option"
  fix device i s n buf d r
  assume IH: "\<And>device i s n buf d r. loop device i s n buf d = Some r \<Longrightarrow> \<not> self_linked i s (dv_data d)"
    and eq: "(if s = 0 then Some ([], buf, d)
      else (case read_fd SECTOR_SIZE (lseek_set (ucast s * of_nat SECTOR_SIZE) d) of (b1, d1) \<Rightarrow>
        if length b1 \<noteq> SECTOR_SIZE
        then Some ([Read_Error ''Error reading EBR''], b1 @ drop (length b1) buf, d1)
        else (case ebr_body device s n b1 of (rows, count', b2) \<Rightarrow>
          let nxt = load32 462 b2;
              nxt' = (if nxt \<noteq> 0 then nxt + start_sector (entry_at b2 i) else nxt)
          in Option.bind (loop device i nxt' count' b2 d1) (\<lambda>(rows', b3, d3).
               Some (rows @ rows', b3, d3))))) = Some r"
  show "\<not> self_linked i s (dv_data d)"
  proof
    assume sl: "self_linked i s (dv_data d)"
    then obtain boot le l l3 l4 where s: "s \<noteq> 0" "0 < i" "i < 4" "length boot = 446" "chs_word l \<noteq> 0"
      "chs_word l + start_sector ([le, l, l3, l4] ! i) = s"
      "take 512 (drop (unat s * 512) (dv_data d)) = mk_sector boot [le, l, l3, l4]"
      by (auto simp: self_linked_def)
    let ?b = "mk_sector boot [le, l, l3, l4]" and ?d1 = "d\<lparr>dv_pos := unat s * 512 + 512\<rparr>"
    have len: "length ?b = 512" using s(4) by (simp add: length_mk_sector)
    have rd: "read_fd SECTOR_SIZE (lseek_set (ucast s * of_nat SECTOR_SIZE) d) = (?b, ?d1)"
      using s(7) len by (simp only: seek_sector) (simp add: read_fd_def SECTOR_SIZE_def Let_def)
    obtain rows n' le' where body: "ebr_body device s n ?b = (rows, n', mk_sector boot [le', l, l3, l4])"
      using ebr_body_mk [OF s(4), of "[l, l3, l4]" device s n le] by (cases "total_sectors le = 0") auto
    have "[le', l, l3, l4] ! i = [le, l, l3, l4] ! i" using s(2) by (cases i) auto
    then have "start_sector (entry_at (mk_sector boot [le', l, l3, l4]) i) = start_sector ([le, l, l3, l4] ! i)"
      using entry_at_mk [OF s(4), of i "[le', l, l3, l4]"] s(3) by simp
    moreover have "length ?b = SECTOR_SIZE" by (simp add: SECTOR_SIZE_def len)
    ultimately obtain r' where "loop device i s n' (mk_sector boot [le', l, l3, l4]) ?d1 = Some r'"
      using eq s(1,5,6) by (auto simp: rd body link_mk [OF s(4)] Let_def bind_eq_Some_conv)
    from IH [OF this] sl show False by simp
  qed
qed

lemma handle_mbr_endless:
  assumes "length boot = 446" and "length es = 4" and "i < 4" and "is_extended (es ! i)"
    and "\<forall>k < i. \<not> is_extended (es ! k)"
    and "self_linked i (start_sector (es ! i)) (mk_sector boot es @ rest)"
  shows "handle_mbr device \<lparr>dv_data = mk_sector boot es @ rest, dv_pos = p\<rparr> = None"
proof -
  let ?b = "mk_sector boot es" and ?d = "\<lparr>dv_data = mk_sector boot es @ rest, dv_pos = 512\<rparr>"
  have at: "entry_at ?b k = es ! k" if "k < 4" for k using entry_at_mk [OF assms(1)] that assms(2) by simp
  have "ebr_loop device i (start_sector (es ! i)) 5 ?b ?d = None"
    using ebr_loop_self_linked [of device i "start_sector (es ! i)" 5 ?b ?d] assms(6)
    by (cases "ebr_loop device i (start_sector (es ! i)) 5 ?b ?d") auto
  moreover have "\<forall>k \<in> set [0..<i]. \<not> is_extended (entry_at ?b k)" using assms(3,5) at by auto
  from extended_rows_skip [OF this] have
    "extended_rows device ([0..<i] @ i # [Suc i..<4]) ?b ?d = extended_rows device (i # [Suc i..<4]) ?b ?d" .
  moreover have "[0..<i] @ i # [Suc i..<4] = [0..<4]"
    using assms(3) upt_add_eq_append [of 0 i "4 - i"] by (simp add: upt_conv_Cons)
  ultimately show ?thesis
    using assms(4) at [OF assms(3)] by (simp add: handle_mbr_run [OF assms(1,2)] is_extended_def)
qed

definition endless_disk :: "byte list" where
  "endless_disk = mk_sector boot_code [linux_entry 8 4, (linux_entry 2 100)\<lparr>system_id := 5\<rparr>, zero_entry, zero_entry] @
     (replicate 512 0 @ mk_sector boot_code [linux_entry 3 7, (linux_entry 1 20)\<lparr>boot_indicator := 1\<rparr>, zero_entry, zero_entry])"

section \<open>GPT disks\<close>

fun gpt_rows :: "(byte list \<Rightarrow> string) \<Rightarrow> string \<Rightarrow> nat \<Rightarrow> GPTPartitionEntry list \<Rightarrow> fd_row list" where
  "gpt_rows uuid_unparse device k [] = []"
| "gpt_rows uuid_unparse device k (e # es) =
     (if ge_starting_lba e \<noteq> 0 \<or> ge_ending_lba e \<noteq> 0
      then [print_gpt_partition_info uuid_unparse e (part_name device (int k))] else []) @
     gpt_rows uuid_unparse device (Suc k) es"

lemma gpt_entries_rows:
  "list_all gpt_entry_valid es \<Longrightarrow> drop (dv_pos d) (dv_data d) = concat (map gpt_entry_bytes es) @ tail \<Longrightarrow>
   gpt_entries u device (length es) i d = gpt_rows u device (Suc i) es"
proof (induction es arbitrary: i d)
  case (Cons e es)
  have l: "length (gpt_entry_bytes e) = 128" using Cons.prems(1) by (simp add: gpt_entry.length_enc)
  have dec: "gpt_entry_of (gpt_entry_bytes e) = e"
    using gpt_entry.dec_enc [of e "[]"] Cons.prems(1) by simp
  have "read_fd 128 d = (gpt_entry_bytes e, d\<lparr>dv_pos := dv_pos d + 128\<rparr>)"
    using Cons.prems(2) l by (simp add: read_fd_def Let_def)
  moreover have "drop (dv_pos d + 128) (dv_data d) = concat (map gpt_entry_bytes es) @ tail"
    using arg_cong [OF Cons.prems(2), of "drop 128"] l by (simp add: add.commute)
  then have "gpt_entries u device (length es) (Suc i) (d\<lparr>dv_pos := dv_pos d + 128\<rparr>) =
      gpt_rows u device (Suc (Suc i)) es"
    using Cons.prems(1) by (intro Cons.IH) simp_all
  ultimately show ?case using l dec by (simp add: Let_def add.commute)
qed simp

lemma handle_gpt_rows:
  assumes "length sector0 = 512" and "gpt_header_valid h" and "list_all gpt_entry_valid es"
    and "unat (gh_partition_entry_lba h) < 2 ^ 54"
    and "length es = unat (gh_num_partition_entries h)"
    and "drop (unat (gh_partition_entry_lba h) * 512) (sector0 @ gpt_header_bytes h @ rest) =
         concat (map gpt_entry_bytes es) @ tail"
  shows "handle_gpt uuid_unparse device \<lparr>dv_data = sector0 @ gpt_header_bytes h @ rest, dv_pos = p\<rparr> =
    Disklabel_Gpt (uuid_unparse (gh_disk_guid h)) # gpt_rows uuid_unparse device 1 es"
proof -
  let ?d = "\<lparr>dv_data = sector0 @ gpt_header_bytes h @ rest, dv_pos = p\<rparr>"
  let ?lba = "gh_partition_entry_lba h"
  have l: "length (gpt_header_bytes h) = 92" by (rule gpt_header.length_enc [OF assms(2)])
  have dec: "gpt_header_of (gpt_header_bytes h) = h"
    using gpt_header.dec_enc [OF assms(2), of "[]"] by simp
  have s1: "lseek_set (of_nat SECTOR_SIZE) ?d = ?d\<lparr>dv_pos := 512\<rparr>"
    by (subst seek_low) (simp_all add: SECTOR_SIZE_def)
  have rd: "read_fd 92 (?d\<lparr>dv_pos := 512\<rparr>) = (gpt_header_bytes h, ?d\<lparr>dv_pos := 604\<rparr>)"
    using l assms(1) by (simp add: read_fd_def Let_def)
  have u: "unat (?lba * of_nat SECTOR_SIZE) = unat ?lba * 512"
    using assms(4) by (simp add: SECTOR_SIZE_def unat_word_ariths(2))
  have s2: "lseek_set (?lba * of_nat SECTOR_SIZE) (?d\<lparr>dv_pos := 604\<rparr>) = ?d\<lparr>dv_pos := unat ?lba * 512\<rparr>"
    using assms(4) by (subst seek_low) (simp_all add: u)
  note steps = s1 rd [simplified] s2 [simplified]
  have "gpt_entries uuid_unparse device (length es) 0 (?d\<lparr>dv_pos := unat ?lba * 512\<rparr>) =
      gpt_rows uuid_unparse device (Suc 0) es"
    by (rule gpt_entries_rows [OF assms(3)]) (use assms(6) in simp)
  then show ?thesis
    using assms(5) by (simp add: handle_gpt_def steps l dec)
qed

text \<open>
  What \<^verbatim>\<open>uuid_unparse\<close> is documented to print: the 16 bytes in hexadecimal, with dashes
  behind the fourth, sixth, eighth and tenth.
\<close>

definition uuid_text :: "byte list \<Rightarrow> string" where
  "uuid_text g = concat (map hex2 (take 4 g)) @ ''-'' @ concat (map hex2 (take 2 (drop 4 g))) @ ''-'' @
     concat (map hex2 (take 2 (drop 6 g))) @ ''-'' @ concat (map hex2 (take 2 (drop 8 g))) @ ''-'' @
     concat (map hex2 (take 6 (drop 10 g)))"

definition linux_guid :: "byte list" where
  "linux_guid = [0xaf, 0x3d, 0xc6, 0x0f, 0x83, 0x84, 0x72, 0x47, 0x8e, 0x79, 0x3d, 0x69, 0xd8, 0x47, 0x7d, 0xe4]"

definition efi_guid :: "byte list" where
  "efi_guid = [0x28, 0x73, 0x2a, 0xc1, 0x1f, 0xf8, 0xd2, 0x11, 0xba, 0x4b, 0x00, 0xa0, 0xc9, 0x3e, 0xc9, 0x3b]"

definition bios_guid :: "byte list" where
  "bios_guid = [0x48, 0x61, 0x68, 0x21, 0x49, 0x64, 0x6f, 0x6e, 0x74, 0x4e, 0x65, 0x65, 0x64, 0x45, 0x46, 0x49]"

definition sample_gpt :: GPTHeader where
  "sample_gpt = \<lparr>gh_signature = GPT_SIGN, gh_revision = 0x10000, gh_header_size = 92, gh_header_crc32 = 0,
     gh_reserved = 0, gh_current_lba = 1, gh_backup_lba = 99, gh_first_usable_lba = 34,
     gh_last_usable_lba = 90, gh_disk_guid = efi_guid, gh_partition_entry_lba = 2,
     gh_num_partition_entries = 3, gh_partition_entry_size = 128, gh_partition_array_crc32 = 0\<rparr>"

definition gpt_part :: "byte list \<Rightarrow> 64 word \<Rightarrow> 64 word \<Rightarrow> GPTPartitionEntry" where
  "gpt_part g s e = \<lparr>ge_type_guid = g, ge_unique_guid = replicate 16 1, ge_starting_lba = s,
     ge_ending_lba = e, ge_attributes = 0, ge_name = replicate 72 0\<rparr>"

text \<open>With the documented text of \<^verbatim>\<open>uuid_unparse\<close>, the three types the program knows
  are found exactly for the GUIDs of Linux file systems, EFI system and BIOS boot partitions as they
  stand on the disk; every other type is shown as its GUID.\<close>

theorem gpt_types_known:
  assumes "\<forall>g. length g = 16 \<longrightarrow> uuid_unparse g = uuid_text g" and "length g = 16"
  shows "get_gpt_partition_type (uuid_unparse g) =
    (if g = linux_guid then ''Linux filesystem'' else if g = efi_guid then ''EFI System''
     else if g = bios_guid then ''BIOS boot'' else uuid_text g)"
proof -
  have inj: "uuid_text g = uuid_text g' \<longleftrightarrow> g = g'" if "length g' = 16" for g'
  proof
    have l: "length (concat (map hex2 xs)) = 2 * length xs" for xs
      by (induction xs) (simp_all add: length_hex2)
    have c: "concat (map hex2 xs) = concat (map hex2 ys) \<longleftrightarrow> xs = ys" if "length xs = length ys" for xs ys
      using that by (induction xs ys rule: list_induct2) (simp_all add: hex2_inject length_hex2)
    assume "uuid_text g = uuid_text g'"
    then have "take 4 g = take 4 g'" "take 2 (drop 4 g) = take 2 (drop 4 g')"
      "take 2 (drop 6 g) = take 2 (drop 6 g')" "take 2 (drop 8 g) = take 2 (drop 8 g')"
      "take 6 (drop 10 g) = take 6 (drop 10 g')"
      using assms(2) that by (simp_all add: uuid_text_def l c)
    moreover have "x = take 4 x @ take 2 (drop 4 x) @ take 2 (drop 6 x) @ take 2 (drop 8 x) @ take 6 (drop 10 x)"
      if "length x = 16" for x :: "byte list"
    proof -
      have e: "take m (drop n x) @ drop (m + n) x = drop n x" for m n
        by (metis append_take_drop_id drop_drop)
      have "take 6 (drop 10 x) = drop 10 x" using that by simp
      with e [of 2 8] e [of 2 6] e [of 2 4] e [of 4 0] show ?thesis by simp
    qed
    ultimately show "g = g'" using assms(2) that by metis
  qed simp
  have k: "uuid_text linux_guid = ''af3dc60f-8384-7247-8e79-3d69d8477de4''"
    "uuid_text efi_guid = ''28732ac1-1ff8-d211-ba4b-00a0c93ec93b''"
    "uuid_text bios_guid = ''48616821-4964-6f6e-744e-656564454649''" by code_simp+
  have len: "length linux_guid = 16" "length efi_guid = 16" "length bios_guid = 16"
    by (simp_all add: linux_guid_def efi_guid_def bios_guid_def)
  show ?thesis
    using assms by (simp add: get_gpt_partition_type_def k [symmetric] inj len)
qed

theorem gpt_types_known_witness:
  "get_gpt_partition_type (uuid_text efi_guid) = ''EFI System''"
  using gpt_types_known [of uuid_text efi_guid] by (simp add: efi_guid_def linux_guid_def)

section \<open>The whole program on one disk\<close>

text \<open>A device that answers every call, and the first line printed for it.\<close>

definition device_of :: "byte list \<Rightarrow> 64 word \<Rightarrow> int \<Rightarrow> int \<Rightarrow> string \<Rightarrow> dev_env" where
  "device_of bytes sz logical physical model =
     \<lparr>de_data = Some bytes, de_size = Some sz, de_logical = Some logical, de_physical = Some physical,
      de_model = Some model\<rparr>"

lemma detect_signed:
  assumes "1024 \<le> length bs" and "bs ! 510 = 0x55" and "bs ! 511 = 0xAA"
  shows "detect_partition_table_type \<lparr>dv_data = bs, dv_pos = 0\<rparr> =
    (if take 8 (drop 512 bs) = efi_part then GPT else MBR, [], \<lparr>dv_data = bs, dv_pos = 1024\<rparr>)"
proof -
  let ?b = "take 512 bs" and ?b2 = "take 512 (drop 512 bs)"
  have l: "lseek_set 512 \<lparr>dv_data = bs, dv_pos = 512\<rparr> = \<lparr>dv_data = bs, dv_pos = 512\<rparr>"
    by (simp add: lseek_set_def)
  have "load16 510 ?b = MBR_SIGN" using assms by (subst load16_sign) auto
  moreover have "load64 0 ?b2 = GPT_SIGN \<longleftrightarrow> take 8 (drop 512 bs) = efi_part"
    using assms by (subst load64_sign) auto
  ultimately show ?thesis
    using assms by (simp add: detect_partition_table_type_def read_fd_def SECTOR_SIZE_def l)
qed

lemma fdisk_signed:
  assumes "env device = device_of bs sz logical physical model"
    and "1024 \<le> length bs" and "bs ! 510 = 0x55" and "bs ! 511 = 0xAA"
  shows "fdisk_main uuid_unparse env dir [prog, device] =
    map_option (\<lambda>rows. (0, print_disk_info device sz (Some model) logical physical # rows))
      (if take 8 (drop 512 bs) = efi_part
       then Some (handle_gpt uuid_unparse device \<lparr>dv_data = bs, dv_pos = 1024\<rparr>)
       else handle_mbr device \<lparr>dv_data = bs, dv_pos = 1024\<rparr>)"
  by (simp add: fdisk_main_def process_device_def device_of_def assms(1) detect_signed [OF assms(2-4)]
      option.map_comp comp_def Let_def)

lemma mk_sector_signed:
  assumes "length boot = 446" and "length es = 4"
  shows "(mk_sector boot es @ rest) ! 510 = 0x55" "(mk_sector boot es @ rest) ! 511 = 0xAA"
  using assms mbr.length_array [of es] by (simp_all add: mk_sector_def nth_append list_all_iff)

text \<open>C21: For a disk with a boot record of four entries, none of them extended, and no GPT in its
  second sector, the program prints the disk's size and model, the identifier in bytes 440 to 443
  and then one row for each used entry, in their order and with their numbers, and returns 0.\<close>

theorem mbr_disk_listed:
  assumes "env device = device_of (mk_sector boot es @ rest) sz logical physical model"
    and "length boot = 446" and "length es = 4" and "\<forall>e \<in> set es. \<not> is_extended e"
    and "512 \<le> length rest" and "take 8 rest \<noteq> efi_part"
  shows "fdisk_main uuid_unparse env dir [prog, device] =
    Some (0, print_disk_info device sz (Some model) logical physical #
      Disklabel_Dos (load32 440 boot) # used_rows device 1 es)"
  using assms length_mk_sector [OF assms(2,3)]
  by (simp add: fdisk_signed [where env = env and device = device, OF assms(1)] mk_sector_signed handle_mbr_rows)

definition boot_disk :: "byte list" where
  "boot_disk = mk_sector boot_code [linux_entry 2048 2097152, zero_entry, zero_entry, linux_entry 4198400 2048] @
     replicate 512 0"

theorem mbr_disk_listed_witness:
  "fdisk_main uuid_text (\<lambda>_. device_of boot_disk 1024 512 512 ''disk'') None [''fdisk'', ''/dev/sdb''] =
    Some (0, [Disk_Info ''/dev/sdb'' 1024 2 (Some ''disk'') 512 512, Disklabel_Dos 0x3ac6739b,
      Mbr_Row ''/dev/sdb1'' 2048 2099199 2097152 1 0x83 ''Linux'',
      Mbr_Row ''/dev/sdb4'' 4198400 4200447 2048 0 0x83 ''Linux''])"
proof -
  let ?es = "[linux_entry 2048 2097152, zero_entry, zero_entry, linux_entry 4198400 2048]"
  have h: "length boot_code = 446" "length ?es = 4" "\<forall>e \<in> set ?es. \<not> is_extended e"
    by (simp_all add: boot_code_def linux_entry_def zero_entry_def is_extended_def)
  have l: "load32 440 boot_code = 0x3ac6739b" by (simp add: load_defs boot_code_def)
  have n: "part_name ''/dev/sdb'' 1 = ''/dev/sdb1''" "part_name ''/dev/sdb'' 4 = ''/dev/sdb4''"
    by code_simp+
  have r: "512 \<le> length (replicate 512 (0 :: byte))" "take 8 (replicate 512 0) \<noteq> efi_part"
    using zeros_no_gpt [of "[]"] by simp_all
  show ?thesis
    unfolding boot_disk_def
    using n by (subst mbr_disk_listed [OF refl h r]) (simp add: l linux_entry_def zero_entry_def
      print_mbr_partition_info_def get_mbr_partition_type_def print_disk_info_def SECTOR_SIZE_def)
qed

text \<open>C22: A disk with one extended entry, whose boot record at the extended partition's start holds
  a logical partition and a second entry with empty CHS fields: the program adds one row for the
  logical partition, number 5, with its absolute start sector, and stops. So one logical partition
  is listed rightly; but every later one is lost when CHS fields are not filled in, since the
  result does not depend on where the second entry says the next boot record is.\<close>

theorem mbr_logical_listed:
  assumes "env device = device_of (mk_sector boot es @ rest) sz logical physical model"
    and "length boot = 446" and "es = [e1, e2, e3, e4]" and "j < 4"
    and "\<forall>i < 4. is_extended (es ! i) \<longleftrightarrow> i = j" and "start_sector (es ! j) = s" and "s \<noteq> 0"
    and "length boot2 = 446" and "total_sectors le \<noteq> 0"
    and "boot_indicator l = 0" and "start_head l = 0" and "start_sector_cylinder l = 0"
    and "\<forall>i < 4. j < i \<longrightarrow> \<not> is_extended ([le, l, l3, l4] ! i)"
    and "take 512 (drop (unat s * 512) (mk_sector boot es @ rest)) = mk_sector boot2 [le, l, l3, l4]"
    and "512 \<le> length rest" and "take 8 rest \<noteq> efi_part"
  shows "fdisk_main uuid_unparse env dir [prog, device] =
    Some (0, print_disk_info device sz (Some model) logical physical #
      Disklabel_Dos (load32 440 boot) # used_rows device 1 es @
      [print_mbr_partition_info (le\<lparr>start_sector := start_sector le + s\<rparr>) (part_name device 5)])"
proof -
  have es: "length es = 4" by (simp add: assms(3))
  show ?thesis
    using length_mk_sector [OF assms(2) es] assms(15,16)
    by (simp add: fdisk_signed [where env = env and device = device, OF assms(1)] mk_sector_signed [OF assms(2) es] handle_mbr_logical [OF assms(2-14)])
qed

theorem mbr_logical_listed_witness:
  "fdisk_main uuid_text (\<lambda>_. device_of (small_disk ((linux_entry 50 20)\<lparr>system_id := 5\<rparr>)) 1536 512 512 ''disk'')
      None [''fdisk'', ''/dev/sdb''] =
    Some (0, [Disk_Info ''/dev/sdb'' 1536 3 (Some ''disk'') 512 512, Disklabel_Dos 0x3ac6739b,
      Mbr_Row ''/dev/sdb1'' 8 11 4 0 0x83 ''Linux'', Mbr_Row ''/dev/sdb4'' 2 101 100 0 5 ''Extended'',
      Mbr_Row ''/dev/sdb5'' 5 11 7 0 0x83 ''Linux''])"
proof -
  let ?l = "(linux_entry 50 20)\<lparr>system_id := 5\<rparr>" and ?e4 = "(linux_entry 2 100)\<lparr>system_id := 5\<rparr>"
  let ?es = "[linux_entry 8 4, zero_entry, zero_entry, ?e4]"
  let ?rest = "replicate 512 0 @ mk_sector boot_code [linux_entry 3 7, ?l, zero_entry, zero_entry]"
  note d = linux_entry_def zero_entry_def is_extended_def
  have b: "length boot_code = 446" by (simp add: boot_code_def)
  have ext: "\<forall>i < 4. is_extended (?es ! i) \<longleftrightarrow> i = (3 :: nat)"
    by (simp add: numeral_eq_Suc All_less_Suc2) (simp add: d)
  have later: "\<forall>i < 4. (3 :: nat) < i \<longrightarrow> \<not> is_extended ([linux_entry 3 7, ?l, zero_entry, zero_entry] ! i)"
    by simp
  have at: "take 512 (drop (unat (2 :: 32 word) * 512) (mk_sector boot_code ?es @ ?rest)) =
      mk_sector boot_code [linux_entry 3 7, ?l, zero_entry, zero_entry]"
    by (simp add: length_mk_sector b)
  have r: "512 \<le> length ?rest" "take 8 ?rest \<noteq> efi_part" using zeros_no_gpt by simp_all
  have l: "load32 440 boot_code = 0x3ac6739b" by (simp add: load_defs boot_code_def)
  have n: "part_name ''/dev/sdb'' 1 = ''/dev/sdb1''" "part_name ''/dev/sdb'' 4 = ''/dev/sdb4''"
    "part_name ''/dev/sdb'' 5 = ''/dev/sdb5''" by code_simp+
  show ?thesis
    unfolding small_disk_def
    by (subst mbr_logical_listed [OF refl b refl _ ext _ _ b _ _ _ _ later at r])
       (use n in \<open>simp_all add: d l print_mbr_partition_info_def get_mbr_partition_type_def
          print_disk_info_def SECTOR_SIZE_def\<close>)
qed

text \<open>C23: There are disks for which the program does not end: when the first extended entry is
  not the first entry of the table and points to a boot record whose second entry leads back to it
  in the way the code computes the next sector (four bytes of the CHS fields plus a start sector
  from the record just read), the walk goes on for ever.\<close>

theorem mbr_disk_never_ends:
  assumes "env device = device_of (mk_sector boot es @ rest) sz logical physical model"
    and "length boot = 446" and "length es = 4" and "i < 4" and "is_extended (es ! i)"
    and "\<forall>k < i. \<not> is_extended (es ! k)"
    and "self_linked i (start_sector (es ! i)) (mk_sector boot es @ rest)"
    and "512 \<le> length rest" and "take 8 rest \<noteq> efi_part"
  shows "fdisk_main uuid_unparse env dir [prog, device] = None"
  using length_mk_sector [OF assms(2,3)] assms(8,9)
  by (simp add: fdisk_signed [where env = env and device = device, OF assms(1)] mk_sector_signed [OF assms(2,3)] handle_mbr_endless [OF assms(2-7)])

theorem mbr_disk_never_ends_witness:
  "fdisk_main uuid_text (\<lambda>_. device_of endless_disk 1536 512 512 ''disk'') None [''fdisk'', ''/dev/sdc''] = None"
proof -
  let ?es = "[linux_entry 8 4, (linux_entry 2 100)\<lparr>system_id := 5\<rparr>, zero_entry, zero_entry]"
  let ?l = "(linux_entry 1 20)\<lparr>boot_indicator := 1\<rparr>"
  let ?rest = "replicate 512 0 @ mk_sector boot_code [linux_entry 3 7, ?l, zero_entry, zero_entry]"
  note d = linux_entry_def zero_entry_def is_extended_def
  have b: "length boot_code = 446" by (simp add: boot_code_def)
  have c: "chs_word ?l = 1"
    by (simp add: chs_word_def mbr_entry_bytes_def load_defs d bytes16_def le_bytes_numeral)
  have at: "take 512 (drop (unat (2 :: 32 word) * 512) (mk_sector boot_code ?es @ ?rest)) =
      mk_sector boot_code [linux_entry 3 7, ?l, zero_entry, zero_entry]"
    by (simp add: length_mk_sector b)
  have "self_linked 1 (start_sector (?es ! 1)) (mk_sector boot_code ?es @ ?rest)"
    unfolding self_linked_def
    by (intro conjI exI [of _ boot_code] exI [of _ "linux_entry 3 7"] exI [of _ ?l] exI [of _ zero_entry])
       (use b c at in \<open>simp_all add: d\<close>)
  moreover have "512 \<le> length ?rest" "take 8 ?rest \<noteq> efi_part" using zeros_no_gpt by simp_all
  ultimately show ?thesis
    unfolding endless_disk_def
    by (intro mbr_disk_never_ends [OF refl, where i = 1]) (simp_all add: b d)
qed

text \<open>C20: For a GPT disk with a protective boot record, whose header is in the second sector and
  whose table of 128-byte entries is where the header says, the program prints the disk's size and
  model, its identifier and one row for each entry in use, in order and with its number in the
  table, with the first and last sector and the size in sectors; wherever the table is on the disk
  and whatever else the disk holds.\<close>

theorem gpt_disk_listed:
  assumes "env device = device_of (sector0 @ gpt_header_bytes h @ rest) sz logical physical model"
    and "length sector0 = 512" and "sector0 ! 510 = 0x55" and "sector0 ! 511 = 0xAA"
    and "gpt_header_valid h" and "gh_signature h = GPT_SIGN" and "420 \<le> length rest"
    and "list_all gpt_entry_valid es" and "unat (gh_partition_entry_lba h) < 2 ^ 54"
    and "length es = unat (gh_num_partition_entries h)"
    and "drop (unat (gh_partition_entry_lba h) * 512) (sector0 @ gpt_header_bytes h @ rest) =
         concat (map gpt_entry_bytes es) @ tail"
  shows "fdisk_main uuid_unparse env dir [prog, device] =
    Some (0, print_disk_info device sz (Some model) logical physical #
      Disklabel_Gpt (uuid_unparse (gh_disk_guid h)) # gpt_rows uuid_unparse device 1 es)"
proof -
  have l: "length (gpt_header_bytes h) = 92" by (rule gpt_header.length_enc [OF assms(5)])
  have "bytes64 GPT_SIGN = efi_part"
    by (simp add: bytes64_def GPT_SIGN_def efi_part_def le_bytes_numeral)
  then have "take 8 (gpt_header_bytes h) = efi_part"
    by (simp add: gpt_header_bytes_def assms(6)) (simp add: efi_part_def)
  then have "take 8 (drop 512 (sector0 @ gpt_header_bytes h @ rest)) = efi_part"
    using assms(2) l by simp
  then show ?thesis
    using assms(2-4,7) l
    by (simp add: fdisk_signed [where env = env and device = device, OF assms(1)] nth_append handle_gpt_rows [OF assms(2,5,8-11)])
qed

definition sample_gpt_disk :: "byte list" where
  "sample_gpt_disk = (replicate 510 0 @ [0x55, 0xAA]) @ gpt_header_bytes sample_gpt @
     (replicate 420 0 @ concat (map gpt_entry_bytes
        [gpt_part bios_guid 34 39, gpt_part (replicate 16 0) 0 0, gpt_part linux_guid 40 90]))"

theorem gpt_disk_listed_witness:
  "fdisk_main uuid_text (\<lambda>_. device_of sample_gpt_disk 51200 512 4096 ''disk'') None [''fdisk'', ''/dev/sda''] =
    Some (0, [Disk_Info ''/dev/sda'' 51200 100 (Some ''disk'') 512 4096,
      Disklabel_Gpt ''28732ac1-1ff8-d211-ba4b-00a0c93ec93b'', Gpt_Row ''/dev/sda1'' 34 39 6 ''BIOS boot'',
      Gpt_Row ''/dev/sda3'' 40 90 51 ''Linux filesystem''])"
proof -
  let ?es = "[gpt_part bios_guid 34 39, gpt_part (replicate 16 0) 0 0, gpt_part linux_guid 40 90]"
  let ?s0 = "replicate 510 0 @ [0x55, 0xAA] :: byte list" and ?rest = "replicate 420 0 @ concat (map gpt_entry_bytes ?es)"
  note d = sample_gpt_def gpt_part_def efi_guid_def bios_guid_def linux_guid_def
  have v: "gpt_header_valid sample_gpt" "list_all gpt_entry_valid ?es"
    by (simp_all add: gpt_header_valid_def gpt_entry_valid_def d)
  have s0: "length ?s0 = 512" "?s0 ! 510 = 0x55" "?s0 ! 511 = 0xAA" by (simp_all add: nth_append)
  have pr: "print_gpt_partition_info uuid_text (gpt_part g s e) nm =
      Gpt_Row nm s e (e - s + 1) (get_gpt_partition_type (uuid_text g))"
    and gs: "ge_starting_lba (gpt_part g s e) = s" "ge_ending_lba (gpt_part g s e) = e" for g s e nm
    by (simp_all add: print_gpt_partition_info_def gpt_part_def)
  have hs: "gh_num_partition_entries sample_gpt = 3" "gh_disk_guid sample_gpt = efi_guid"
    "gh_signature sample_gpt = GPT_SIGN" "gh_partition_entry_lba sample_gpt = 2" by (simp_all add: sample_gpt_def)
  have n: "part_name ''/dev/sda'' 1 = ''/dev/sda1''" "part_name ''/dev/sda'' 3 = ''/dev/sda3''"
    by code_simp+
  have u: "uuid_text efi_guid = ''28732ac1-1ff8-d211-ba4b-00a0c93ec93b''" by code_simp
  have t: "get_gpt_partition_type (uuid_text bios_guid) = ''BIOS boot''"
    "get_gpt_partition_type (uuid_text linux_guid) = ''Linux filesystem''" by code_simp+
  have "drop (unat (gh_partition_entry_lba sample_gpt) * 512) (?s0 @ gpt_header_bytes sample_gpt @ ?rest) =
      concat (map gpt_entry_bytes ?es) @ []"
    by (simp add: gpt_header.length_enc [OF v(1)] hs)
  from gpt_disk_listed [OF refl s0 v(1) hs(3) _ v(2) _ _ this] show ?thesis
    unfolding sample_gpt_disk_def
    using n t u by (simp add: pr gs hs print_disk_info_def SECTOR_SIZE_def)
qed

end
