(* ===== verification/Elf.thy ===== *)
theory Elf
  imports Bytes
begin

text \<open>
  \<^verbatim>\<open>Elf_parser/elf.c\<close>: the header of an ELF file is read into a structure of 64 bytes and
  printed. A file is the list of its bytes; \<^verbatim>\<open>fread\<close> fills the front of the structure and
  leaves the rest as it was on the stack, which is an argument of \<open>elf_main\<close>.
\<close>

section \<open>The header\<close>

definition EI_NIDENT :: nat where "EI_NIDENT = 16"

record Elf64_Ehdr =
  e_ident :: "byte list"
  e_type :: "16 word"
  e_machine :: "16 word"
  e_version :: "32 word"
  e_entry :: "64 word"
  e_phoff :: "64 word"
  e_shoff :: "64 word"
  e_flags :: "32 word"
  e_ehsize :: "16 word"
  e_phentsize :: "16 word"
  e_phnum :: "16 word"
  e_shentsize :: "16 word"
  e_shnum :: "16 word"
  e_shstrndx :: "16 word"

definition ehdr_of :: "byte list \<Rightarrow> Elf64_Ehdr" where
  "ehdr_of b = \<lparr>e_ident = take EI_NIDENT b, e_type = load16 16 b, e_machine = load16 18 b,
     e_version = load32 20 b, e_entry = load64 24 b, e_phoff = load64 32 b, e_shoff = load64 40 b,
     e_flags = load32 48 b, e_ehsize = load16 52 b, e_phentsize = load16 54 b, e_phnum = load16 56 b,
     e_shentsize = load16 58 b, e_shnum = load16 60 b, e_shstrndx = load16 62 b\<rparr>"

section \<open>Printing\<close>

definition elf_class :: "byte \<Rightarrow> string" where
  "elf_class c = (if c = 1 then ''ELF32'' else if c = 2 then ''ELF64'' else ''Unknown'')"

definition elf_data :: "byte \<Rightarrow> string" where
  "elf_data d =
     (if d = 1 then ''2'' @ [CHR 0x27] @ ''s complement, little endian''
      else if d = 2 then ''2'' @ [CHR 0x27] @ ''s complement, big endian''
      else ''Unknown'')"

definition elf_osabi :: "byte \<Rightarrow> string" where
  "elf_osabi a =
     (if a = 0 then ''UNIX System V'' else if a = 1 then ''HP-UX'' else if a = 2 then ''NetBSD''
      else if a = 3 then ''Linux'' else ''Unknown'')"

definition elf_type :: "16 word \<Rightarrow> string" where
  "elf_type t =
     (if t = 1 then ''REL (Relocatable file)'' else if t = 2 then ''EXEC (Executable file)''
      else if t = 3 then ''DYN (Shared object file)'' else if t = 4 then ''CORE (Core file)''
      else ''Unknown'')"

definition elf_machine :: "16 word \<Rightarrow> string" where
  "elf_machine m = (if m = 62 then ''Advanced Micro Devices X86-64'' else ''Unknown'')"

definition dec_of :: "'a::len word \<Rightarrow> string" where
  "dec_of w = radix_str 10 (unat w)"

definition hex_of :: "'a::len word \<Rightarrow> string" where
  "hex_of w = radix_str 16 (unat w)"

text \<open>The lines printed.\<close>

definition print_elf_header :: "Elf64_Ehdr \<Rightarrow> string list" where
  "print_elf_header h =
     [''ELF Header:'',
      ''  Magic:   '' @ concat (map (\<lambda>b. hex2 b @ '' '') (e_ident h)),
      ''  Class:                             '' @ elf_class (e_ident h ! 4),
      ''  Data:                              '' @ elf_data (e_ident h ! 5),
      ''  Version:                           '' @ dec_of (e_ident h ! 6) @ '' (current)'',
      ''  OS/ABI:                            '' @ elf_osabi (e_ident h ! 7),
      ''  ABI Version:                       '' @ dec_of (e_ident h ! 8),
      ''  Type:                              '' @ elf_type (e_type h),
      ''  Machine:                           '' @ elf_machine (e_machine h),
      ''  Version:                           0x'' @ hex_of (e_version h),
      ''  Entry point address:               0x'' @ hex_of (e_entry h),
      ''  Start of program headers:          '' @ dec_of (e_phoff h) @ '' (bytes into file)'',
      ''  Start of section headers:          '' @ dec_of (e_shoff h) @ '' (bytes into file)'',
      ''  Flags:                             0x'' @ hex_of (e_flags h),
      ''  Size of this header:               '' @ dec_of (e_ehsize h) @ '' (bytes)'',
      ''  Size of program headers:           '' @ dec_of (e_phentsize h) @ '' (bytes)'',
      ''  Number of program headers:         '' @ dec_of (e_phnum h),
      ''  Size of section headers:           '' @ dec_of (e_shentsize h) @ '' (bytes)'',
      ''  Number of section headers:         '' @ dec_of (e_shnum h),
      ''  Section header string table index: '' @ dec_of (e_shstrndx h)]"

text \<open>
  \<^verbatim>\<open>main\<close>: the exit status and the lines. \<open>fopen\<close> gives the contents of a file that can
  be opened, \<open>stack\<close> what was in the structure before.
\<close>

definition fread :: "nat \<Rightarrow> byte list \<Rightarrow> byte list \<Rightarrow> byte list" where
  "fread n file old = take n file @ drop (length (take n file)) old"

definition elf_main :: "string list \<Rightarrow> (string \<Rightarrow> byte list option) \<Rightarrow> byte list \<Rightarrow> int \<times> string list" where
  "elf_main argv fopen stack =
     (if length argv \<noteq> 2 then (1, [])
      else (case fopen (argv ! 1) of
              None \<Rightarrow> (1, [])
            | Some file \<Rightarrow> (0, print_elf_header (ehdr_of (fread 64 file stack)))))"

section \<open>The layout\<close>

definition ehdr_bytes :: "Elf64_Ehdr \<Rightarrow> byte list" where
  "ehdr_bytes h = e_ident h @ bytes16 (e_type h) @ bytes16 (e_machine h) @ bytes32 (e_version h) @
     bytes64 (e_entry h) @ bytes64 (e_phoff h) @ bytes64 (e_shoff h) @ bytes32 (e_flags h) @
     bytes16 (e_ehsize h) @ bytes16 (e_phentsize h) @ bytes16 (e_phnum h) @ bytes16 (e_shentsize h) @
     bytes16 (e_shnum h) @ bytes16 (e_shstrndx h)"

definition ehdr_valid :: "Elf64_Ehdr \<Rightarrow> bool" where
  "ehdr_valid h \<longleftrightarrow> length (e_ident h) = EI_NIDENT"

lemma ehdr_of_bytes: "ehdr_valid h \<Longrightarrow> ehdr_of (ehdr_bytes h @ r) = h"
  by (simp add: ehdr_of_def ehdr_bytes_def ehdr_valid_def EI_NIDENT_def load_skip load_first)

interpretation ehdr: packed_struct ehdr_bytes ehdr_of 64 ehdr_valid
  by unfold_locales (simp_all add: ehdr_of_bytes, simp add: ehdr_bytes_def ehdr_valid_def EI_NIDENT_def)

lemma take_take_drop:
  "take n b @ take m (drop n b) = take (n + m) b"
  by (simp add: take_add)

lemma ehdr_bytes_of: "length b = 64 \<Longrightarrow> ehdr_bytes (ehdr_of b) = b"
proof -
  assume l: "length b = 64"
  have "ehdr_bytes (ehdr_of b) = take 16 b @ take 2 (drop 16 b) @ take 2 (drop 18 b) @ take 4 (drop 20 b) @
      take 8 (drop 24 b) @ take 8 (drop 32 b) @ take 8 (drop 40 b) @ take 4 (drop 48 b) @
      take 2 (drop 52 b) @ take 2 (drop 54 b) @ take 2 (drop 56 b) @ take 2 (drop 58 b) @
      take 2 (drop 60 b) @ take 2 (drop 62 b)"
    by (simp add: ehdr_bytes_def ehdr_of_def bytes_load l EI_NIDENT_def)
  also have "\<dots> = take 64 b"
    by (simp only: append_assoc [symmetric] take_take_drop) (simp add: take_take_drop)
  finally show ?thesis using l by simp
qed

section \<open>What the program reports\<close>

text \<open>C24: For a file that begins with a header laid out as ELF64 lays it out, the program prints
  that header, whatever follows in the file and whatever was on the stack; and every 64 bytes are
  the layout of the header that is printed for them.\<close>

theorem elf_main_reports:
  "(ehdr_valid h \<longrightarrow> fopen path = Some (ehdr_bytes h @ rest) \<longrightarrow>
     elf_main [prog, path] fopen stack = (0, print_elf_header h)) \<and>
   (length b = 64 \<longrightarrow> fopen path = Some (b @ rest) \<longrightarrow>
     (\<exists>h'. ehdr_valid h' \<and> ehdr_bytes h' = b \<and> elf_main [prog, path] fopen stack = (0, print_elf_header h')))"
proof (intro conjI impI)
  assume h: "ehdr_valid h" and f: "fopen path = Some (ehdr_bytes h @ rest)"
  have "fread 64 (ehdr_bytes h @ rest) stack = ehdr_bytes h @ drop 64 stack"
    by (simp add: fread_def ehdr.length_enc [OF h])
  with f show "elf_main [prog, path] fopen stack = (0, print_elf_header h)"
    by (simp add: elf_main_def ehdr.dec_enc [OF h])
next
  assume b: "length b = 64" and f: "fopen path = Some (b @ rest)"
  have "fread 64 (b @ rest) stack = ehdr_bytes (ehdr_of b) @ drop 64 stack"
    by (simp add: fread_def b ehdr_bytes_of)
  moreover have v: "ehdr_valid (ehdr_of b)" by (simp add: ehdr_valid_def ehdr_of_def b EI_NIDENT_def)
  ultimately have "elf_main [prog, path] fopen stack = (0, print_elf_header (ehdr_of b))"
    using f by (simp add: elf_main_def ehdr.dec_enc [OF v])
  with v b ehdr_bytes_of show
    "\<exists>h'. ehdr_valid h' \<and> ehdr_bytes h' = b \<and> elf_main [prog, path] fopen stack = (0, print_elf_header h')"
    by blast
qed

definition sample_ehdr :: Elf64_Ehdr where
  "sample_ehdr = \<lparr>e_ident = [0x7f, 0x45, 0x4c, 0x46, 2, 1, 1, 0, 0, 0, 0, 0, 0, 0, 0, 0], e_type = 1,
     e_machine = 62, e_version = 1, e_entry = 0, e_phoff = 0, e_shoff = 1104, e_flags = 0, e_ehsize = 64,
     e_phentsize = 0, e_phnum = 0, e_shentsize = 64, e_shnum = 14, e_shstrndx = 13\<rparr>"

theorem elf_main_reports_witness:
  "elf_main [''elfprog'', ''main.o''] (\<lambda>_. Some (ehdr_bytes sample_ehdr @ [9, 9])) [] =
     (0, print_elf_header sample_ehdr) \<and>
   print_elf_header sample_ehdr ! 1 = ''  Magic:   7f 45 4c 46 02 01 01 00 00 00 00 00 00 00 00 00 '' \<and>
   print_elf_header sample_ehdr ! 12 = ''  Start of section headers:          1104 (bytes into file)''"
proof (intro conjI)
  have "ehdr_valid sample_ehdr" by (simp add: ehdr_valid_def sample_ehdr_def EI_NIDENT_def)
  then show "elf_main [''elfprog'', ''main.o''] (\<lambda>_. Some (ehdr_bytes sample_ehdr @ [9, 9])) [] =
     (0, print_elf_header sample_ehdr)"
    using elf_main_reports [of sample_ehdr "\<lambda>_. Some (ehdr_bytes sample_ehdr @ [9, 9])" "''main.o''" "[9, 9]"]
    by blast
  show "print_elf_header sample_ehdr ! 1 = ''  Magic:   7f 45 4c 46 02 01 01 00 00 00 00 00 00 00 00 00 ''"
    by code_simp
  show "print_elf_header sample_ehdr ! 12 = ''  Start of section headers:          1104 (bytes into file)''"
    by code_simp
qed

lemma dec_of_inject [simp]: "dec_of v = dec_of w \<longleftrightarrow> v = w"
  by (simp add: dec_of_def radix_str_inject word_unat_eq_iff)

lemma hex_of_inject [simp]: "hex_of v = hex_of w \<longleftrightarrow> v = w"
  by (simp add: hex_of_def radix_str_inject word_unat_eq_iff)

lemma magic_inject:
  "length xs = length ys \<Longrightarrow>
   concat (map (\<lambda>b. hex2 b @ '' '') xs) = concat (map (\<lambda>b. hex2 b @ '' '') ys) \<Longrightarrow> xs = ys"
proof (induction xs ys rule: list_induct2)
  case (Cons x xs y ys)
  then show ?case by (simp add: hex2_inject length_hex2)
qed simp

text \<open>The report loses nothing but the names: two headers with the same report have the same
  identification bytes and the same numbers, and types or machines that are reported alike are
  equal or both unknown to the program.\<close>

theorem report_determines_header:
  assumes "ehdr_valid h" and "ehdr_valid h'" and "print_elf_header h = print_elf_header h'"
  shows "e_ident h = e_ident h' \<and> e_version h = e_version h' \<and> e_entry h = e_entry h' \<and>
    e_phoff h = e_phoff h' \<and> e_shoff h = e_shoff h' \<and> e_flags h = e_flags h' \<and>
    e_ehsize h = e_ehsize h' \<and> e_phentsize h = e_phentsize h' \<and> e_phnum h = e_phnum h' \<and>
    e_shentsize h = e_shentsize h' \<and> e_shnum h = e_shnum h' \<and> e_shstrndx h = e_shstrndx h' \<and>
    (e_type h = e_type h' \<or> elf_type (e_type h) = ''Unknown'') \<and>
    (e_machine h = e_machine h' \<or> elf_machine (e_machine h) = ''Unknown'')"
proof -
  have "e_ident h = e_ident h'"
    using assms by (intro magic_inject) (simp_all add: ehdr_valid_def print_elf_header_def)
  moreover have "e_type h = e_type h' \<or> elf_type (e_type h) = ''Unknown''"
    using assms(3) by (simp add: print_elf_header_def) (simp add: elf_type_def split: if_splits)
  moreover have "e_machine h = e_machine h' \<or> elf_machine (e_machine h) = ''Unknown''"
    using assms(3) by (simp add: print_elf_header_def) (simp add: elf_machine_def split: if_splits)
  ultimately show ?thesis
    using assms(3) by (simp add: print_elf_header_def)
qed

theorem report_determines_header_witness:
  "print_elf_header sample_ehdr = print_elf_header (ehdr_of (ehdr_bytes sample_ehdr @ [7])) \<and>
   e_shoff sample_ehdr = e_shoff (ehdr_of (ehdr_bytes sample_ehdr @ [7]))"
proof -
  have v: "ehdr_valid sample_ehdr" by (simp add: ehdr_valid_def sample_ehdr_def EI_NIDENT_def)
  have e: "ehdr_of (ehdr_bytes sample_ehdr @ [7]) = sample_ehdr" by (rule ehdr.dec_enc [OF v])
  from report_determines_header [OF v v refl] show ?thesis by (simp add: e)
qed

section \<open>Files the program misreads\<close>

text \<open>The result of \<^verbatim>\<open>fread\<close> is not looked at: for a file shorter than a header the
  program succeeds and prints what was on the stack. For every such file there are two stacks for
  which the reports differ.\<close>

theorem short_file_prints_stack:
  assumes "fopen path = Some file" and "length file < 64"
  shows "\<exists>s1 s2. length s1 = 64 \<and> length s2 = 64 \<and>
    fst (elf_main [prog, path] fopen s1) = 0 \<and> fst (elf_main [prog, path] fopen s2) = 0 \<and>
    snd (elf_main [prog, path] fopen s1) \<noteq> snd (elf_main [prog, path] fopen s2)"
proof -
  define s where "s x = replicate 63 0 @ [x :: byte]" for x
  have l: "length (s x) = 64" for x by (simp add: s_def)
  have r: "fread 64 file (s x) = take 63 (fread 64 file (s 0)) @ [x]" for x
    using assms(2) by (simp add: fread_def s_def)
  have lr: "length (take 63 (fread 64 file (s 0))) = 63"
    using assms(2) by (simp add: fread_def s_def)
  define t where "t = take 63 (fread 64 file (s 0))"
  have tl: "length t = 63" using lr by (simp add: t_def)
  have "load16 62 (t @ [x]) = of_nat (unat (t ! 62) + 256 * unat x)" for x :: byte
  proof -
    have "drop 62 t = [t ! 62]" using tl by (simp add: list_eq_iff_nth_eq)
    then show ?thesis using tl by (simp add: load_defs)
  qed
  then have x: "load16 62 (t @ [0]) = of_nat (unat (t ! 62))"
    "load16 62 (t @ [1]) = of_nat (unat (t ! 62) + 256)" by simp_all
  have "load16 62 (t @ [0]) \<noteq> load16 62 (t @ [1])"
    by (simp add: x)
  then have "print_elf_header (ehdr_of (t @ [0])) \<noteq> print_elf_header (ehdr_of (t @ [1]))"
    by (simp add: print_elf_header_def) (simp add: ehdr_of_def)
  then have "snd (elf_main [prog, path] fopen (s 0)) \<noteq> snd (elf_main [prog, path] fopen (s 1))"
    by (simp add: elf_main_def assms(1)) (metis r t_def)
  moreover have "fst (elf_main [prog, path] fopen (s x)) = 0" for x
    by (simp add: elf_main_def assms(1))
  ultimately show ?thesis using l by blast
qed

theorem short_file_prints_stack_witness:
  "\<exists>s1 s2. length s1 = 64 \<and> length s2 = 64 \<and>
    snd (elf_main [''elfprog'', ''empty''] (\<lambda>_. Some []) s1) \<noteq>
    snd (elf_main [''elfprog'', ''empty''] (\<lambda>_. Some []) s2)"
  using short_file_prints_stack [of "\<lambda>_. Some []" "''empty''" "[]" "''elfprog''"] by auto

text \<open>
  The layout of a 32-bit header: the entry point and the two offsets take four bytes each.
\<close>

definition ehdr32_bytes :: "byte list \<Rightarrow> 16 word \<Rightarrow> 16 word \<Rightarrow> 32 word \<Rightarrow> 32 word \<Rightarrow> 32 word \<Rightarrow> 32 word \<Rightarrow>
    32 word \<Rightarrow> byte list" where
  "ehdr32_bytes ident ty machine version entry phoff shoff flags =
     ident @ bytes16 ty @ bytes16 machine @ bytes32 version @ bytes32 entry @ bytes32 phoff @
     bytes32 shoff @ bytes32 flags"

text \<open>A 32-bit file is announced as \<^verbatim>\<open>ELF32\<close> but read with the 64-bit layout: the entry
  point printed is the entry point with the offset of the program headers in its upper half, and
  the offset printed is that of the section headers with the flags in its upper half.\<close>

theorem elf32_misread:
  assumes "length ident = 16" and "ident ! 4 = 1"
    and "fopen path = Some (ehdr32_bytes ident ty machine version entry phoff shoff flags @ rest)"
  shows "\<exists>out. elf_main [prog, path] fopen stack = (0, out) \<and>
    out ! 2 = ''  Class:                             ELF32'' \<and>
    out ! 10 = ''  Entry point address:               0x'' @ radix_str 16 (unat entry + 2 ^ 32 * unat phoff) \<and>
    out ! 11 = ''  Start of program headers:          '' @
      radix_str 10 (unat shoff + 2 ^ 32 * unat flags) @ '' (bytes into file)''"
proof -
  let ?b = "ehdr32_bytes ident ty machine version entry phoff shoff flags"
  have f: "fread 64 (?b @ rest) stack = ?b @ fread 24 rest (drop 40 stack)"
    using assms(1) by (simp add: fread_def ehdr32_bytes_def add.commute)
  have i: "e_ident (ehdr_of (?b @ t)) = ident" for t
    using assms(1) by (simp add: ehdr_of_def ehdr32_bytes_def EI_NIDENT_def)
  have app: "le_nat (xs @ ys) = le_nat xs + 256 ^ length xs * le_nat ys" for xs ys
    by (induction xs) (simp_all add: algebra_simps)
  have "unat (e_entry (ehdr_of (?b @ t))) = unat entry + 2 ^ 32 * unat phoff"
    "unat (e_phoff (ehdr_of (?b @ t))) = unat shoff + 2 ^ 32 * unat flags" for t
    using assms(1) by (simp_all add: ehdr_of_def unat_load ehdr32_bytes_def load_le_def app)
  then show ?thesis
    using assms(2,3)
    by (simp add: elf_main_def f print_elf_header_def i hex_of_def dec_of_def elf_class_def)
qed

definition sample_ehdr32 :: "byte list" where
  "sample_ehdr32 = ehdr32_bytes [0x7f, 0x45, 0x4c, 0x46, 1, 1, 1, 0, 0, 0, 0, 0, 0, 0, 0, 0] 2 3 1 0x8048000 52 0 0"

theorem elf32_misread_witness:
  "\<exists>out. elf_main [''elfprog'', ''a32''] (\<lambda>_. Some sample_ehdr32) [] = (0, out) \<and>
    out ! 10 = ''  Entry point address:               0x3408048000''"
proof -
  let ?ident = "[0x7f, 0x45, 0x4c, 0x46, 1, 1, 1, 0, 0, 0, 0, 0, 0, 0, 0, 0] :: byte list"
  have i: "length ?ident = 16" "?ident ! 4 = 1" by simp_all
  have f: "(\<lambda>_. Some sample_ehdr32) ''a32'' = Some (ehdr32_bytes ?ident 2 3 1 0x8048000 52 0 0 @ [])"
    by (simp add: sample_ehdr32_def)
  have r: "radix_str 16 (unat (0x8048000 :: 32 word) + 2 ^ 32 * unat (52 :: 32 word)) = ''3408048000''"
    by (simp add: radix_str.simps digit_char_def char_of_def bit_iff_odd)
  from elf32_misread [of ?ident "\<lambda>_. Some sample_ehdr32", OF i f, where prog = "''elfprog''"
      and path = "''a32''" and stack = "[]", unfolded r]
  obtain out where "elf_main [''elfprog'', ''a32''] (\<lambda>_. Some sample_ehdr32) [] = (0, out)"
    "out ! 10 = ''  Entry point address:               0x'' @ ''3408048000''" by blast
  then show ?thesis by (intro exI [of _ out]) simp
qed

end
