(* ===== verification/Logger.thy ===== *)
theory Logger
  imports Cstdio
begin

text \<open>
  \<^verbatim>\<open>Signals/real-time_logger\<close>: the logger (\<^verbatim>\<open>logger.c\<close>, \<^verbatim>\<open>logger.h\<close>), the
  program that uses it (\<^verbatim>\<open>main.c\<close>) and the program that changes its level with a real-time
  signal (\<^verbatim>\<open>set_log_level.c\<close>). The static variables are a record; what a descriptor
  received is a string; the outcomes of the system calls (\<^verbatim>\<open>write\<close>, \<^verbatim>\<open>open\<close>,
  \<^verbatim>\<open>sigaction\<close>, \<^verbatim>\<open>kill\<close>) are arguments. A message is the text
  \<^verbatim>\<open>vsnprintf\<close> makes of the format and its arguments.
\<close>

section \<open>Levels\<close>

datatype LogLevel = LOG_LEVEL_DISABLED | LOG_LEVEL_ERROR | LOG_LEVEL_WARNING | LOG_LEVEL_INFO
  | LOG_LEVEL_DEBUG

fun level_code :: "LogLevel \<Rightarrow> int" where
  "level_code LOG_LEVEL_DISABLED = 0"
| "level_code LOG_LEVEL_ERROR = 1"
| "level_code LOG_LEVEL_WARNING = 2"
| "level_code LOG_LEVEL_INFO = 3"
| "level_code LOG_LEVEL_DEBUG = 4"

lemma level_code_inject [simp]: "level_code a = level_code b \<longleftrightarrow> a = b"
  by (cases a; cases b) auto

lemma level_code_range: "0 \<le> level_code a" "level_code a \<le> 4"
  by (cases a; simp)+

instantiation LogLevel :: linorder
begin

definition less_eq_LogLevel :: "LogLevel \<Rightarrow> LogLevel \<Rightarrow> bool" where
  "a \<le> b \<longleftrightarrow> level_code a \<le> level_code b"

definition less_LogLevel :: "LogLevel \<Rightarrow> LogLevel \<Rightarrow> bool" where
  "a < b \<longleftrightarrow> level_code a < level_code b"

instance
  by standard (auto simp: less_eq_LogLevel_def less_LogLevel_def dest: antisym)

end

definition SIGRTMIN :: int where "SIGRTMIN = 34"
definition SIGRTMAX :: int where "SIGRTMAX = 64"
definition STDERR_FILENO :: int where "STDERR_FILENO = 2"

lemmas rt_consts = SIGRTMIN_def SIGRTMAX_def STDERR_FILENO_def

section \<open>State and operations\<close>

text \<open>
  \<open>lg_handled\<close>: the signals \<^verbatim>\<open>sigaction\<close> has installed the handler for.
\<close>

record logger =
  lg_level :: int
  lg_base :: int
  lg_fd :: int
  lg_handled :: "int list"

definition static_logger :: logger where
  "static_logger = \<lparr>lg_level = level_code LOG_LEVEL_INFO, lg_base = 0, lg_fd = STDERR_FILENO,
                    lg_handled = []\<rparr>"

text \<open>
  One \<^verbatim>\<open>write\<close>: it takes some of the bytes, or it fails. The outcomes still to come are
  a list; when it is used up the call has not returned.
\<close>

datatype write_res = Wrote nat | Write_Eintr | Write_Error

fun safe_write :: "write_res list \<Rightarrow> string \<Rightarrow> (string \<times> write_res list) c_res" where
  "safe_write ws [] = Inr ([], ws)"
| "safe_write [] (b # bs) = Inl Blocked"
| "safe_write (Write_Eintr # ws) (b # bs) = safe_write ws (b # bs)"
| "safe_write (Write_Error # ws) (b # bs) = Inr ([], ws)"
| "safe_write (Wrote n # ws) (b # bs) =
     c_bind (safe_write ws (drop n (b # bs))) (\<lambda>(out, ws'). Inr (take n (b # bs) @ out, ws'))"

definition handle_signal :: "int \<Rightarrow> logger \<Rightarrow> logger" where
  "handle_signal signo lg =
     (let level = signo - lg_base lg in
      if level \<ge> level_code LOG_LEVEL_DISABLED \<and> level \<le> level_code LOG_LEVEL_DEBUG
      then lg\<lparr>lg_level := level\<rparr> else lg)"

text \<open>\<^verbatim>\<open>for (int i = 0; i <= LOG_LEVEL_DEBUG; i++) sigaction(log_signal_base + i, ...)\<close>\<close>

fun register_handlers :: "(int \<Rightarrow> bool) \<Rightarrow> int list \<Rightarrow> logger \<Rightarrow> logger c_res" where
  "register_handlers sigaction [] lg = Inr lg"
| "register_handlers sigaction (i # is) lg =
     (if sigaction (lg_base lg + i)
      then register_handlers sigaction is (lg\<lparr>lg_handled := (lg_base lg + i) # lg_handled lg\<rparr>)
      else Inl Exit_Failure)"

definition init_logger :: "(int \<Rightarrow> bool) \<Rightarrow> (string \<Rightarrow> int) \<Rightarrow> int \<Rightarrow> string option \<Rightarrow> logger \<Rightarrow> logger c_res" where
  "init_logger sigaction open_file base_signal log_file lg =
     (let lg1 = lg\<lparr>lg_base := SIGRTMIN\<rparr>;
          lg2 = (if base_signal \<ge> SIGRTMIN \<and> base_signal \<le> SIGRTMAX - level_code LOG_LEVEL_DEBUG
                 then lg1\<lparr>lg_base := base_signal\<rparr> else lg1)
      in c_bind (register_handlers sigaction [0..level_code LOG_LEVEL_DEBUG] lg2) (\<lambda>lg3.
         Inr (case log_file of
                None \<Rightarrow> lg3
              | Some path \<Rightarrow>
                  let lg4 = lg3\<lparr>lg_fd := open_file path\<rparr>
                  in if lg_fd lg4 = -1 then lg4\<lparr>lg_fd := STDERR_FILENO\<rparr> else lg4)))"

definition get_log_level :: "logger \<Rightarrow> int" where
  "get_log_level lg = lg_level lg"

definition set_log_level :: "int \<Rightarrow> logger \<Rightarrow> logger" where
  "set_log_level level lg =
     (if level \<ge> level_code LOG_LEVEL_DISABLED \<and> level \<le> level_code LOG_LEVEL_DEBUG
      then lg\<lparr>lg_level := level\<rparr> else lg)"

text \<open>
  The buffer of 256 bytes: the prefix, then what fits of the message, then a NUL; the bytes
  written are those before the first NUL.
\<close>

definition log_buffer :: "string \<Rightarrow> string \<Rightarrow> string" where
  "log_buffer level_str msg =
     (let prefix = ''['' @ level_str @ ''] ''
      in take 255 prefix @ take (255 - length prefix) (cstr msg))"

definition log_message :: "string \<Rightarrow> string \<Rightarrow> write_res list \<Rightarrow> logger \<Rightarrow> (string \<times> write_res list) c_res" where
  "log_message level_str msg ws lg =
     (if lg_level lg = level_code LOG_LEVEL_DISABLED then Inr ([], ws)
      else c_bind (safe_write ws (log_buffer level_str msg)) (\<lambda>(out1, ws1).
           c_bind (safe_write ws1 ''\<newline>'') (\<lambda>(out2, ws2). Inr (out1 @ out2, ws2))))"

definition LOG_ERROR :: "string \<Rightarrow> write_res list \<Rightarrow> logger \<Rightarrow> (string \<times> write_res list) c_res" where
  "LOG_ERROR msg ws lg =
     (if lg_level lg \<ge> level_code LOG_LEVEL_ERROR then log_message ''ERROR'' msg ws lg else Inr ([], ws))"

definition LOG_WARNING :: "string \<Rightarrow> write_res list \<Rightarrow> logger \<Rightarrow> (string \<times> write_res list) c_res" where
  "LOG_WARNING msg ws lg =
     (if lg_level lg \<ge> level_code LOG_LEVEL_WARNING then log_message ''WARNING'' msg ws lg
      else Inr ([], ws))"

definition LOG_INFO :: "string \<Rightarrow> write_res list \<Rightarrow> logger \<Rightarrow> (string \<times> write_res list) c_res" where
  "LOG_INFO msg ws lg =
     (if lg_level lg \<ge> level_code LOG_LEVEL_INFO then log_message ''INFO'' msg ws lg else Inr ([], ws))"

definition LOG_DEBUG :: "string \<Rightarrow> write_res list \<Rightarrow> logger \<Rightarrow> (string \<times> write_res list) c_res" where
  "LOG_DEBUG msg ws lg =
     (if lg_level lg \<ge> level_code LOG_LEVEL_DEBUG then log_message ''DEBUG'' msg ws lg else Inr ([], ws))"

text \<open>
  \<^verbatim>\<open>set_log_level.c\<close>: the process to signal and the signal, when the arguments are accepted.
\<close>

definition level_of_arg :: "string \<Rightarrow> LogLevel option" where
  "level_of_arg s =
     (if s = ''disable'' then Some LOG_LEVEL_DISABLED
      else if s = ''error'' then Some LOG_LEVEL_ERROR
      else if s = ''warning'' then Some LOG_LEVEL_WARNING
      else if s = ''info'' then Some LOG_LEVEL_INFO
      else if s = ''debug'' then Some LOG_LEVEL_DEBUG
      else None)"

text \<open>
  The program: its exit status, what it prints, and the signal it has sent. \<open>kill\<close> says which
  signals the system lets it send to which process.
\<close>

datatype sender_out = Usage | Invalid_Level | Kill_Error | Level_Set string int

definition sender_main :: "(int \<Rightarrow> int \<Rightarrow> bool) \<Rightarrow> string list \<Rightarrow> int \<times> sender_out \<times> (int \<times> int) option" where
  "sender_main kill argv =
     (if length argv \<noteq> 3 then (1, Usage, None)
      else
        let pid = atoi (argv ! 1) in
        case level_of_arg (argv ! 2) of
          None \<Rightarrow> (1, Invalid_Level, None)
        | Some level \<Rightarrow>
            let sig = SIGRTMIN + level_code level in
            if \<not> kill pid sig then (1, Kill_Error, None)
            else (0, Level_Set (argv ! 2) pid, Some (pid, sig)))"

text \<open>
  A signal that arrives: the handler runs if it is installed, else the default action ends the
  process (\<open>None\<close>).
\<close>

definition deliver :: "int \<Rightarrow> logger \<Rightarrow> logger option" where
  "deliver signo lg = (if signo \<in> set (lg_handled lg) then Some (handle_signal signo lg) else None)"

text \<open>\<^verbatim>\<open>main.c\<close>: the messages of \<^verbatim>\<open>main\<close> before it sleeps for ever.\<close>

definition logger_main :: "(int \<Rightarrow> bool) \<Rightarrow> (string \<Rightarrow> int) \<Rightarrow> write_res list \<Rightarrow> (string \<times> logger) c_res" where
  "logger_main sigaction open_file ws =
     c_bind (init_logger sigaction open_file SIGRTMIN (Some ''application.log'') static_logger) (\<lambda>lg.
     c_bind (LOG_DEBUG ''Debug message.'' ws lg) (\<lambda>(o1, ws1).
     c_bind (LOG_INFO ''Info message.'' ws1 lg) (\<lambda>(o2, ws2).
     c_bind (LOG_WARNING ''Warning message.'' ws2 lg) (\<lambda>(o3, ws3).
     c_bind (LOG_ERROR ''Error message.'' ws3 lg) (\<lambda>(o4, ws4).
       Inr (o1 @ o2 @ o3 @ o4, lg))))))"

section \<open>Writing\<close>

text \<open>The writes that make progress.\<close>

fun progress :: "write_res list \<Rightarrow> nat" where
  "progress [] = 0"
| "progress (Wrote n # ws) = (if 0 < n then Suc (progress ws) else progress ws)"
| "progress (Write_Eintr # ws) = progress ws"
| "progress (Write_Error # ws) = progress ws"

text \<open>
  Without an error the whole buffer is written, whatever the sizes of the partial writes and
  however often they are interrupted, and a write of each byte is enough.
\<close>

lemma safe_write_all:
  assumes "Write_Error \<notin> set ws" and "length buf \<le> progress ws"
  shows "\<exists>ws'. safe_write ws buf = Inr (buf, ws') \<and> Write_Error \<notin> set ws' \<and>
    progress ws - length buf \<le> progress ws'"
  using assms
proof (induction ws buf rule: safe_write.induct)
  case (5 n ws b bs)
  show ?case
  proof (cases "n = 0")
    case True
    with 5 have "\<exists>ws'. safe_write ws (b # bs) = Inr (b # bs, ws') \<and> Write_Error \<notin> set ws' \<and>
        progress ws - length (b # bs) \<le> progress ws'" by simp
    with True show ?thesis by auto
  next
    case False
    then have l: "length (drop n (b # bs)) \<le> length bs" by simp
    with 5(2,3) False have "Write_Error \<notin> set ws" "length (drop n (b # bs)) \<le> progress ws" by auto
    from 5(1) [OF this] obtain ws' where "safe_write ws (drop n (b # bs)) = Inr (drop n (b # bs), ws')"
      "Write_Error \<notin> set ws'" "progress ws - length (drop n (b # bs)) \<le> progress ws'" by blast
    with l False show ?thesis by auto
  qed
qed auto

lemma safe_write_prefix:
  "safe_write ws buf = Inr (out, ws') \<Longrightarrow>
   \<exists>cs rest. ws = cs @ ws' \<and> buf = out @ rest \<and> (rest \<noteq> [] \<longrightarrow> cs \<noteq> [] \<and> last cs = Write_Error)"
proof (induction ws buf arbitrary: out rule: safe_write.induct)
  case (3 ws b bs)
  then obtain cs rest where "ws = cs @ ws'" "b # bs = out @ rest"
    "rest \<noteq> [] \<longrightarrow> cs \<noteq> [] \<and> last cs = Write_Error" by fastforce
  then show ?case by (intro exI [of _ "Write_Eintr # cs"] exI [of _ rest]) auto
next
  case (4 ws b bs)
  then show ?case by (intro exI [of _ "[Write_Error]"] exI [of _ "b # bs"]) auto
next
  case (5 n ws b bs)
  from 5(2) obtain o' where o: "safe_write ws (drop n (b # bs)) = Inr (o', ws')"
    and out: "out = take n (b # bs) @ o'"
    by (auto simp: c_bind_Inr_iff)
  from 5(1) [OF o] obtain cs rest where "ws = cs @ ws'" "drop n (b # bs) = o' @ rest"
    "rest \<noteq> [] \<longrightarrow> cs \<noteq> [] \<and> last cs = Write_Error" by blast
  then show ?case
    using append_take_drop_id [of n "b # bs"]
    by (intro exI [of _ "Wrote n # cs"] exI [of _ rest]) (auto simp: out)
qed auto

text \<open>C35: What \<^verbatim>\<open>safe_write\<close> sends is a prefix of the buffer, and a proper one only when the
  last \<^verbatim>\<open>write\<close> failed with something else than \<^verbatim>\<open>EINTR\<close>; when no write fails and
  the writes make progress it returns with the whole buffer written, however the kernel splits it.\<close>

theorem safe_write_correct:
  "(\<forall>out ws'. safe_write ws buf = Inr (out, ws') \<longrightarrow>
     (\<exists>cs rest. ws = cs @ ws' \<and> buf = out @ rest \<and> (rest \<noteq> [] \<longrightarrow> cs \<noteq> [] \<and> last cs = Write_Error))) \<and>
   (Write_Error \<notin> set ws \<longrightarrow> length buf \<le> progress ws \<longrightarrow> (\<exists>ws'. safe_write ws buf = Inr (buf, ws')))"
  using safe_write_prefix safe_write_all by blast

theorem safe_write_correct_witness:
  "\<exists>ws'. safe_write [Write_Eintr, Wrote 2, Wrote 0, Wrote 1] ''log'' = Inr (''log'', ws')"
proof -
  have "safe_write [Write_Eintr, Wrote 2, Wrote 0, Wrote 1] ''log'' = Inr (''log'', [])"
    by (simp add: numeral_2_eq_2)
  moreover from this obtain cs rest where "''log'' = ''log'' @ rest"
    using safe_write_correct [of "[Write_Eintr, Wrote 2, Wrote 0, Wrote 1]" "''log''"] by blast
  ultimately show ?thesis by blast
qed

section \<open>The level\<close>

definition level_ok :: "logger \<Rightarrow> bool" where
  "level_ok lg \<longleftrightarrow> (\<exists>l. lg_level lg = level_code l)"

lemma level_ok_iff: "level_ok lg \<longleftrightarrow> 0 \<le> lg_level lg \<and> lg_level lg \<le> 4"
proof
  assume "0 \<le> lg_level lg \<and> lg_level lg \<le> 4"
  then consider "lg_level lg = 0" | "lg_level lg = 1" | "lg_level lg = 2" | "lg_level lg = 3"
    | "lg_level lg = 4" by linarith
  then show "level_ok lg" unfolding level_ok_def by cases (metis level_code.simps)+
qed (auto simp: level_ok_def level_code_range)

lemma handle_signal_level:
  "lg_base lg \<le> s \<Longrightarrow> s \<le> lg_base lg + 4 \<Longrightarrow> handle_signal s lg = lg\<lparr>lg_level := s - lg_base lg\<rparr>"
  by (simp add: handle_signal_def)

lemma handle_signal_ok: "level_ok lg \<Longrightarrow> level_ok (handle_signal s lg)"
  by (auto simp: level_ok_iff handle_signal_def Let_def)

lemma set_log_level_ok: "level_ok lg \<Longrightarrow> level_ok (set_log_level l lg)"
  by (auto simp: level_ok_iff set_log_level_def)

lemma register_handlers_result:
  "register_handlers sa is lg = Inr lg' \<Longrightarrow>
   lg' = lg\<lparr>lg_handled := map ((+) (lg_base lg)) (rev is) @ lg_handled lg\<rparr>"
proof (induction "is" arbitrary: lg)
  case (Cons i js)
  from Cons.prems have "register_handlers sa js (lg\<lparr>lg_handled := (lg_base lg + i) # lg_handled lg\<rparr>) = Inr lg'"
    by (simp split: if_splits)
  from Cons.IH [OF this] show ?case by simp
qed simp

lemma upto_0_4: "[0..4] = [0, 1, 2, 3, 4 :: int]"
  by (simp add: upto.simps)

text \<open>What \<^verbatim>\<open>init_logger\<close> leaves: the base the range check chose and its five handlers.\<close>

lemma init_logger_result:
  assumes "init_logger sa op base_signal file lg0 = Inr lg"
  shows "lg_base lg = (if 34 \<le> base_signal \<and> base_signal \<le> 60 then base_signal else 34)"
    and "lg_level lg = lg_level lg0"
    and "set (lg_handled lg) = {lg_base lg..lg_base lg + 4} \<union> set (lg_handled lg0)"
proof -
  let ?b = "if 34 \<le> base_signal \<and> base_signal \<le> 60 then base_signal else 34"
  from assms obtain lg3 where r: "register_handlers sa [0, 1, 2, 3, 4] (lg0\<lparr>lg_base := ?b\<rparr>) = Inr lg3"
    and fd: "lg_base lg = lg_base lg3" "lg_level lg = lg_level lg3" "lg_handled lg = lg_handled lg3"
    by (auto simp: init_logger_def Let_def c_bind_Inr_iff rt_consts upto_0_4 split: if_splits option.splits)
  show "lg_base lg = ?b" "lg_level lg = lg_level lg0"
    using fd register_handlers_result [OF r] by simp_all
  then show "set (lg_handled lg) = {lg_base lg..lg_base lg + 4} \<union> set (lg_handled lg0)"
    using fd register_handlers_result [OF r] by auto
qed

lemma sender_signal:
  "sender_main kill [prog, pid, s] = (status, out, Some (p, sig)) \<longleftrightarrow>
   status = 0 \<and> out = Level_Set s p \<and> kill p sig \<and>
   (\<exists>l. level_of_arg s = Some l \<and> p = atoi pid \<and> sig = 34 + level_code l)"
  by (auto simp: sender_main_def rt_consts Let_def split: option.splits)

text \<open>C34: The two programs agree: a logger initialised with \<^verbatim>\<open>SIGRTMIN\<close>, or with a base
  signal that it refuses, is set by \<^verbatim>\<open>set_log_level\<close> to the level named on the command
  line.\<close>

theorem set_level_roundtrip:
  assumes "init_logger sa op base_signal file static_logger = Inr lg"
    and "base_signal \<le> SIGRTMIN \<or> SIGRTMAX - 4 < base_signal"
    and "sender_main kill [prog, pid, s] = (status, out, Some (p, sig))"
  shows "status = 0 \<and> (\<exists>l lg'. level_of_arg s = Some l \<and> deliver sig lg = Some lg' \<and>
    get_log_level lg' = level_code l)"
proof -
  from assms(3) obtain l where l: "level_of_arg s = Some l" and sig: "sig = 34 + level_code l" and st: "status = 0"
    by (auto simp: sender_signal)
  from assms(2) have b: "lg_base lg = 34"
    by (auto simp: init_logger_result(1) [OF assms(1)] rt_consts)
  with init_logger_result(3) [OF assms(1)] have "sig \<in> set (lg_handled lg)"
    using level_code_range [of l] by (auto simp: sig)
  then show ?thesis
    using l b st level_code_range [of l] by (simp add: deliver_def sig handle_signal_level get_log_level_def)
qed

theorem set_level_roundtrip_witness:
  "\<exists>lg lg'. init_logger (\<lambda>_. True) (\<lambda>_. 3) SIGRTMIN (Some ''application.log'') static_logger = Inr lg \<and>
     sender_main (\<lambda>_ _. True) [''set_log_level'', ''77'', ''error''] = (0, Level_Set ''error'' 77, Some (77, 35)) \<and>
     deliver 35 lg = Some lg' \<and> get_log_level lg' = 1"
proof -
  obtain lg where lg: "init_logger (\<lambda>_. True) (\<lambda>_. 3) SIGRTMIN (Some ''application.log'') static_logger = Inr lg"
    by (simp add: init_logger_def Let_def upto_0_4)
  have s: "sender_main (\<lambda>_ _. True) [''set_log_level'', ''77'', ''error''] = (0, Level_Set ''error'' 77, Some (77, 35))" by code_simp
  have "SIGRTMIN \<le> SIGRTMIN \<or> SIGRTMAX - 4 < SIGRTMIN" by simp
  from set_level_roundtrip [OF lg this s] lg s show ?thesis by (auto simp: level_of_arg_def)
qed

text \<open>With a base signal above \<^verbatim>\<open>SIGRTMIN\<close> the programs disagree: the sender does not
  know the base, so a level below the shift arrives as a signal without a handler, which ends the
  process that was only to be told to log less, and the others are set too low by the shift.\<close>

theorem custom_base_disagrees:
  assumes "init_logger sa op base_signal file static_logger = Inr lg"
    and "SIGRTMIN < base_signal" and "base_signal \<le> SIGRTMAX - 4"
    and "sender_main kill [prog, pid, s] = (status, out, Some (p, sig))" and "level_of_arg s = Some l"
  shows "deliver sig lg = (if level_code l < base_signal - SIGRTMIN then None
     else Some (lg\<lparr>lg_level := level_code l - (base_signal - SIGRTMIN)\<rparr>))"
proof -
  from assms(4,5) have sig: "sig = 34 + level_code l" by (auto simp: sender_signal)
  from assms(2,3) have b: "lg_base lg = base_signal"
    by (auto simp: init_logger_result(1) [OF assms(1)] rt_consts)
  have h: "set (lg_handled lg) = {base_signal..base_signal + 4}"
    using init_logger_result(3) [OF assms(1)] by (simp add: b static_logger_def)
  show ?thesis
  proof (cases "level_code l < base_signal - SIGRTMIN")
    case True
    then show ?thesis by (simp add: deliver_def h sig rt_consts)
  next
    case False
    with level_code_range [of l] assms(2) have "sig \<in> set (lg_handled lg)"
      by (simp add: h sig rt_consts)
    with False level_code_range [of l] assms(2) show ?thesis
      by (simp add: deliver_def handle_signal_level b sig rt_consts algebra_simps)
  qed
qed

theorem custom_base_disagrees_witness:
  "\<exists>lg. init_logger (\<lambda>_. True) (\<lambda>_. 3) 36 None static_logger = Inr lg \<and> deliver 34 lg = None"
proof -
  obtain lg where lg: "init_logger (\<lambda>_. True) (\<lambda>_. 3) 36 None static_logger = Inr lg"
    by (simp add: init_logger_def Let_def upto_0_4)
  have s: "sender_main (\<lambda>_ _. True) [''set_log_level'', ''77'', ''disable''] = (0, Level_Set ''disable'' 77, Some (77, 34))" by code_simp
  have "SIGRTMIN < 36" "36 \<le> SIGRTMAX - 4" "level_of_arg ''disable'' = Some LOG_LEVEL_DISABLED"
    by (simp_all add: rt_consts level_of_arg_def)
  from custom_base_disagrees [OF lg this(1,2) s this(3)] lg show ?thesis by (simp add: rt_consts)
qed

section \<open>What a log shows\<close>

fun log_call :: "LogLevel \<Rightarrow> string \<Rightarrow> write_res list \<Rightarrow> logger \<Rightarrow> (string \<times> write_res list) c_res" where
  "log_call LOG_LEVEL_DISABLED msg ws lg = Inr ([], ws)"
| "log_call LOG_LEVEL_ERROR msg ws lg = LOG_ERROR msg ws lg"
| "log_call LOG_LEVEL_WARNING msg ws lg = LOG_WARNING msg ws lg"
| "log_call LOG_LEVEL_INFO msg ws lg = LOG_INFO msg ws lg"
| "log_call LOG_LEVEL_DEBUG msg ws lg = LOG_DEBUG msg ws lg"

text \<open>
  A run of the program that logs, with the signals between its calls. The second component is
  \<open>None\<close> when a signal ended it.
\<close>

datatype log_ev = Ev_Signal int | Ev_Log LogLevel string

fun run_log :: "log_ev list \<Rightarrow> write_res list \<Rightarrow> logger \<Rightarrow> (string \<times> logger option) c_res" where
  "run_log [] ws lg = Inr ([], Some lg)"
| "run_log (Ev_Signal s # es) ws lg =
     (case deliver s lg of None \<Rightarrow> Inr ([], None) | Some lg' \<Rightarrow> run_log es ws lg')"
| "run_log (Ev_Log l msg # es) ws lg =
     c_bind (log_call l msg ws lg) (\<lambda>(out, ws').
     c_bind (run_log es ws' lg) (\<lambda>(out', r). Inr (out @ out', r)))"

text \<open>The transcript promised: a line for every message of a level that is on at the time.\<close>

fun level_name :: "LogLevel \<Rightarrow> string" where
  "level_name LOG_LEVEL_DISABLED = ''DISABLED''"
| "level_name LOG_LEVEL_ERROR = ''ERROR''"
| "level_name LOG_LEVEL_WARNING = ''WARNING''"
| "level_name LOG_LEVEL_INFO = ''INFO''"
| "level_name LOG_LEVEL_DEBUG = ''DEBUG''"

definition log_line :: "LogLevel \<Rightarrow> string \<Rightarrow> string" where
  "log_line l msg =
     ''['' @ level_name l @ ''] '' @ take (252 - length (level_name l)) (cstr msg) @ ''\<newline>''"

fun transcript :: "int \<Rightarrow> int \<Rightarrow> log_ev list \<Rightarrow> string" where
  "transcript base lv [] = []"
| "transcript base lv (Ev_Signal s # es) = transcript base (s - base) es"
| "transcript base lv (Ev_Log l msg # es) =
     (if l \<noteq> LOG_LEVEL_DISABLED \<and> level_code l \<le> lv then log_line l msg else []) @ transcript base lv es"

lemma log_message_all:
  assumes "Write_Error \<notin> set ws" and "length (log_buffer nm msg) + 1 \<le> progress ws" and "lg_level lg \<noteq> 0"
  shows "\<exists>ws'. log_message nm msg ws lg = Inr (log_buffer nm msg @ ''\<newline>'', ws') \<and>
    Write_Error \<notin> set ws' \<and> progress ws - (length (log_buffer nm msg) + 1) \<le> progress ws'"
proof -
  have "length (log_buffer nm msg) \<le> progress ws" using assms(2) by simp
  from safe_write_all [OF assms(1) this] obtain ws1 where
    w1: "safe_write ws (log_buffer nm msg) = Inr (log_buffer nm msg, ws1)" "Write_Error \<notin> set ws1"
      "progress ws - length (log_buffer nm msg) \<le> progress ws1" by blast
  have "length ''\<newline>'' \<le> progress ws1" using w1(3) assms(2) by simp
  from safe_write_all [OF w1(2) this] obtain ws2 where
    w2: "safe_write ws1 ''\<newline>'' = Inr (''\<newline>'', ws2)" "Write_Error \<notin> set ws2"
      "progress ws1 - length ''\<newline>'' \<le> progress ws2" by blast
  have "progress ws - (length (log_buffer nm msg) + 1) \<le> progress ws2"
    using w1(3) w2(3) by simp
  with w1(1) w2(1,2) assms(3) show ?thesis by (simp add: log_message_def)
qed

lemma log_line_buffer:
  "l \<noteq> LOG_LEVEL_DISABLED \<Longrightarrow> log_line l msg = log_buffer (level_name l) msg @ ''\<newline>''"
  by (cases l) (simp_all add: log_line_def log_buffer_def Let_def)

lemma log_call_all:
  assumes "Write_Error \<notin> set ws" and "level_ok lg"
    and "length (transcript b (lg_level lg) [Ev_Log l msg]) \<le> progress ws"
  shows "\<exists>ws'. log_call l msg ws lg = Inr (transcript b (lg_level lg) [Ev_Log l msg], ws') \<and>
    Write_Error \<notin> set ws' \<and>
    progress ws - length (transcript b (lg_level lg) [Ev_Log l msg]) \<le> progress ws'"
proof -
  define on where "on \<longleftrightarrow> l \<noteq> LOG_LEVEL_DISABLED \<and> level_code l \<le> lg_level lg"
  have call: "log_call l msg ws lg = (if on then log_message (level_name l) msg ws lg else Inr ([], ws))"
    by (cases l) (simp_all add: on_def LOG_ERROR_def LOG_WARNING_def LOG_INFO_def LOG_DEBUG_def)
  have tr: "transcript b (lg_level lg) [Ev_Log l msg] =
      (if on then log_buffer (level_name l) msg @ ''\<newline>'' else [])"
    by (simp add: on_def log_line_buffer)
  show ?thesis
  proof (cases on)
    case True
    then have "lg_level lg \<noteq> 0" by (cases l) (auto simp: on_def)
    with log_message_all [OF assms(1), of "level_name l" msg lg] assms(3) True show ?thesis
      by (simp only: call tr if_True length_append) simp
  next
    case False
    with assms(1) show ?thesis by (simp only: call tr if_False) simp
  qed
qed

lemma run_log_all:
  assumes "Write_Error \<notin> set ws" and "length (transcript (lg_base lg) (lg_level lg) es) \<le> progress ws"
    and "level_ok lg" and "{lg_base lg..lg_base lg + 4} \<subseteq> set (lg_handled lg)"
    and "\<forall>s. Ev_Signal s \<in> set es \<longrightarrow> lg_base lg \<le> s \<and> s \<le> lg_base lg + 4"
  shows "\<exists>lg'. run_log es ws lg = Inr (transcript (lg_base lg) (lg_level lg) es, Some lg')"
  using assms
proof (induction es arbitrary: ws lg)
  case (Cons e es)
  show ?case
  proof (cases e)
    case (Ev_Signal s)
    let ?lg = "lg\<lparr>lg_level := s - lg_base lg\<rparr>"
    have s: "lg_base lg \<le> s" "s \<le> lg_base lg + 4" using Cons.prems(5) Ev_Signal by auto
    then have d: "deliver s lg = Some ?lg"
      using Cons.prems(4) by (auto simp: deliver_def handle_signal_level)
    have "level_ok ?lg" using s by (simp add: level_ok_iff)
    with Cons.prems Ev_Signal have "\<exists>lg'. run_log es ws ?lg =
        Inr (transcript (lg_base ?lg) (lg_level ?lg) es, Some lg')"
      by (intro Cons.IH) auto
    with d Ev_Signal show ?thesis by simp
  next
    case (Ev_Log l msg)
    let ?t = "transcript (lg_base lg) (lg_level lg) [Ev_Log l msg]"
    have t: "transcript (lg_base lg) (lg_level lg) (e # es) = ?t @ transcript (lg_base lg) (lg_level lg) es"
      by (simp add: Ev_Log)
    then have "length ?t \<le> progress ws" using Cons.prems(2) by simp
    from log_call_all [OF Cons.prems(1,3) this] obtain ws' where
      w: "log_call l msg ws lg = Inr (?t, ws')" "Write_Error \<notin> set ws'"
        "progress ws - length ?t \<le> progress ws'" by blast
    have "length (transcript (lg_base lg) (lg_level lg) es) \<le> progress ws'"
      using w(3) t Cons.prems(2) by simp
    with w(2) Cons.prems have "\<exists>lg'. run_log es ws' lg =
        Inr (transcript (lg_base lg) (lg_level lg) es, Some lg')"
      by (intro Cons.IH) auto
    with w(1) t Ev_Log show ?thesis by auto
  qed
qed simp

text \<open>C9: A log is what the calls and the signals between them make of it: for an initialised
  logger whose signals are those of its five levels, and writes that do not fail, the output is
  one line \<^verbatim>\<open>[LEVEL] message\<close> (cut at 255 bytes) for every call whose level is at or
  below the level set by the last signal, in the order of the calls, and nothing else.\<close>

theorem run_log_transcript:
  assumes "init_logger sa op base_signal file static_logger = Inr lg"
    and "\<forall>s. Ev_Signal s \<in> set es \<longrightarrow> lg_base lg \<le> s \<and> s \<le> lg_base lg + 4"
    and "Write_Error \<notin> set ws" and "length (transcript (lg_base lg) 3 es) \<le> progress ws"
  shows "\<exists>lg'. run_log es ws lg = Inr (transcript (lg_base lg) 3 es, Some lg')"
proof -
  have lv: "lg_level lg = 3"
    using init_logger_result(2) [OF assms(1)] by (simp add: static_logger_def)
  then have "level_ok lg" by (simp add: level_ok_iff)
  moreover have "{lg_base lg..lg_base lg + 4} \<subseteq> set (lg_handled lg)"
    using init_logger_result(3) [OF assms(1)] by blast
  ultimately show ?thesis
    using run_log_all [OF assms(3) _ _ _ assms(2)] assms(4) by (simp add: lv)
qed

definition sample_events :: "log_ev list" where
  "sample_events = [Ev_Log LOG_LEVEL_DEBUG ''a'', Ev_Signal 38, Ev_Log LOG_LEVEL_DEBUG ''b'', Ev_Signal 34,
     Ev_Log LOG_LEVEL_ERROR ''c'']"

theorem run_log_transcript_witness:
  "\<exists>lg lg'. init_logger (\<lambda>_. True) (\<lambda>_. 3) SIGRTMIN None static_logger = Inr lg \<and>
     run_log sample_events (replicate 10 (Wrote 1)) lg = Inr (''[DEBUG] b'' @ ''\<newline>'', Some lg')"
proof -
  obtain lg where lg: "init_logger (\<lambda>_. True) (\<lambda>_. 3) SIGRTMIN None static_logger = Inr lg"
    by (simp add: init_logger_def Let_def upto_0_4)
  have b: "lg_base lg = 34" using init_logger_result(1) [OF lg] by (simp add: rt_consts)
  have "\<forall>s. Ev_Signal s \<in> set sample_events \<longrightarrow> lg_base lg \<le> s \<and> s \<le> lg_base lg + 4"
    by (auto simp: sample_events_def b)
  moreover have "Write_Error \<notin> set (replicate 10 (Wrote 1))" by simp
  moreover have t: "transcript 34 3 sample_events = ''[DEBUG] b'' @ ''\<newline>''" by code_simp
  moreover have "progress (replicate 10 (Wrote 1)) = 10" by code_simp
  ultimately show ?thesis
    using run_log_transcript [OF lg, of sample_events "replicate 10 (Wrote 1)"] lg by (auto simp: b)
qed

end
