(* ===== verification/Signals.thy ===== *)
theory Signals
  imports Cstdio
begin

text \<open>
  The signal programs of \<^verbatim>\<open>Signals/\<close>: \<^verbatim>\<open>snd.c\<close> queues a real-time signal with a
  number, \<^verbatim>\<open>rcv.c\<close> acts on it, and \<^verbatim>\<open>Non-Blocking_Wait/non_blocking_wait.c\<close>
  reaps its children in the handler of \<^verbatim>\<open>SIGCHLD\<close>. The kernel's part is a record: the
  children, the pending bit of \<^verbatim>\<open>SIGCHLD\<close> (a standard signal, so deliveries coalesce),
  \<^verbatim>\<open>errno\<close> and what was written to the standard error.
\<close>

section \<open>rcv.c and snd.c\<close>

definition SI_QUEUE :: int where "SI_QUEUE = -1"

datatype rcv_state = Rcv_Running | Rcv_Exited | Rcv_Aborted

text \<open>The handler: what it prints and whether the process goes on.\<close>

definition rcv_handle_signal :: "int \<Rightarrow> int \<Rightarrow> string \<times> rcv_state" where
  "rcv_handle_signal si_code data =
     (if si_code = SI_QUEUE then
        if data = 0 then (''Received data 0'' @ ''\<newline>'' @ '' >> Terminating......'' @ ''\<newline>'', Rcv_Exited)
        else if data = 1 then
          (''Received data 1'' @ ''\<newline>'' @ '' >> Aborting with core dump.....'' @ ''\<newline>'', Rcv_Aborted)
        else (''Eh da ya Ghaly O_o? '' @ dec_str data @ ''\<newline>'', Rcv_Running)
      else ([], Rcv_Running))"

text \<open>Real-time signals are queued: every one is handled, in the order sent.\<close>

fun rcv_run :: "(int \<times> int) list \<Rightarrow> string \<times> rcv_state" where
  "rcv_run [] = ([], Rcv_Running)"
| "rcv_run ((code, data) # sigs) =
     (case rcv_handle_signal code data of
        (out, Rcv_Running) \<Rightarrow> (case rcv_run sigs of (out', st) \<Rightarrow> (out @ out', st))
      | (out, st) \<Rightarrow> (out, st))"

text \<open>The process and the number \<^verbatim>\<open>sigqueue\<close> is called with, when there are two arguments.\<close>

definition snd_main :: "string list \<Rightarrow> (int \<times> int) option" where
  "snd_main argv = (if length argv \<noteq> 3 then None else Some (atoi (argv ! 1), atoi (argv ! 2)))"

lemma atoi_in32: "in32 (atoi s)"
  by (cases "scan_d s"; cases "fst (scan_d s)") (auto simp: atoi_def scan_d_in32)

lemma scan_d_not_number:
  "s = [] \<or> (\<not> c_isspace (hd s) \<and> \<not> c_isdigit (hd s) \<and> hd s \<notin> {CHR ''-'', CHR ''+''}) \<Longrightarrow>
   fst (scan_d s) = None"
  by (cases s) (auto simp: scan_d_def scan_digits_def skip_ws_def)

text \<open>A number given on the sender's command line arrives at the receiver as it was given,
  and is acted on as documented (0 ends it, 1 aborts it, others are printed); an argument that is
  no number is sent as 0 and ends the receiver.\<close>

theorem snd_rcv:
  assumes "snd_main [prog, p, arg] = Some (pid, data)"
  shows "(\<forall>z. in32 z \<longrightarrow> arg = dec_str z \<longrightarrow> rcv_run [(SI_QUEUE, data)] =
      (if z = 0 then (''Received data 0'' @ ''\<newline>'' @ '' >> Terminating......'' @ ''\<newline>'', Rcv_Exited)
       else if z = 1 then
         (''Received data 1'' @ ''\<newline>'' @ '' >> Aborting with core dump.....'' @ ''\<newline>'', Rcv_Aborted)
       else (''Eh da ya Ghaly O_o? '' @ arg @ ''\<newline>'', Rcv_Running))) \<and>
    (arg = [] \<or> (\<not> c_isspace (hd arg) \<and> \<not> c_isdigit (hd arg) \<and> hd arg \<notin> {CHR ''-'', CHR ''+''}) \<longrightarrow>
      snd (rcv_run [(SI_QUEUE, data)]) = Rcv_Exited)"
proof -
  from assms have d: "data = atoi arg" by (simp add: snd_main_def)
  have "atoi arg = 0"
    if "arg = [] \<or> (\<not> c_isspace (hd arg) \<and> \<not> c_isdigit (hd arg) \<and> hd arg \<notin> {CHR ''-'', CHR ''+''})"
    using scan_d_not_number [OF that] by (simp add: atoi_def)
  then show ?thesis
    by (auto simp: d atoi_dec_str rcv_handle_signal_def)
qed

theorem snd_rcv_witness:
  "snd_main [''s'', ''4711'', ''abort''] = Some (4711, 0) \<and> snd (rcv_run [(SI_QUEUE, 0)]) = Rcv_Exited"
proof -
  have s: "snd_main [''s'', ''4711'', ''abort''] = Some (4711, 0)" by code_simp
  from snd_rcv [OF s] s show ?thesis by (simp add: c_isspace_def c_isdigit_def)
qed

section \<open>non_blocking_wait.c\<close>

datatype wstatus = W_Exited int | W_Signaled int | W_Other

datatype child = Running | Zombie wstatus

record kernel =
  k_children :: "(int \<times> child) list"
  k_pending :: bool
  k_errno :: int
  k_stderr :: "string list"

definition ECHILD :: int where "ECHILD = 10"
definition SIGSEGV :: int where "SIGSEGV = 11"

text \<open>
  \<^verbatim>\<open>waitpid(-1, &status, WNOHANG)\<close>: -1 with \<^verbatim>\<open>ECHILD\<close> without children, 0 when none
  has ended, else the pid of one that has, which is gone afterwards.
\<close>

definition is_zombie :: "int \<times> child \<Rightarrow> bool" where
  "is_zombie c \<longleftrightarrow> (case snd c of Zombie _ \<Rightarrow> True | Running \<Rightarrow> False)"

definition child_status :: "child \<Rightarrow> wstatus" where
  "child_status c = (case c of Zombie st \<Rightarrow> st | Running \<Rightarrow> W_Other)"

definition waitpid_nohang :: "kernel \<Rightarrow> int \<times> wstatus \<times> kernel" where
  "waitpid_nohang k =
     (if k_children k = [] then (-1, W_Other, k\<lparr>k_errno := ECHILD\<rparr>)
      else (case take_first is_zombie (k_children k) of
              None \<Rightarrow> (0, W_Other, k)
            | Some ((pid, c), rest) \<Rightarrow> (pid, child_status c, k\<lparr>k_children := rest\<rparr>)))"

definition safe_print :: "string \<Rightarrow> kernel \<Rightarrow> kernel" where
  "safe_print msg k = k\<lparr>k_stderr := k_stderr k @ [msg]\<rparr>"

text \<open>The text of \<^verbatim>\<open>snprintf\<close> into 256 bytes; \<open>strsignal\<close> is the library's.\<close>

definition child_msg :: "(int \<Rightarrow> string) \<Rightarrow> int \<Rightarrow> wstatus \<Rightarrow> string" where
  "child_msg strsignal pid st =
     take 255 (''Child '' @ dec_str pid @
       (case st of
          W_Exited n \<Rightarrow> '' terminated normally with exit status '' @ dec_str n
        | W_Signaled n \<Rightarrow> '' terminated by signal '' @ dec_str n @ '' ('' @ strsignal n @ '')''
        | W_Other \<Rightarrow> '' terminated with unknown reason'') @ ''\<newline>'')"

lemma waitpid_shorter:
  assumes "waitpid_nohang k = (pid, st, k')" and "pid > 0"
  shows "length (k_children k') < length (k_children k)"
proof -
  from assms obtain c rest where "take_first is_zombie (k_children k) = Some ((pid, c), rest)"
    "k' = k\<lparr>k_children := rest\<rparr>"
    by (auto simp: waitpid_nohang_def split: if_splits option.splits)
  then show ?thesis by (auto dest!: take_first_Some)
qed

function reap_loop :: "(int \<Rightarrow> string) \<Rightarrow> kernel \<Rightarrow> int \<times> kernel" where
  "reap_loop strsignal k =
     (case waitpid_nohang k of (child_pid, status, k1) \<Rightarrow>
        if child_pid > 0 then reap_loop strsignal (safe_print (child_msg strsignal child_pid status) k1)
        else (child_pid, k1))"
  by pat_completeness auto
termination
  by (relation "measure (\<lambda>(_, k). length (k_children k))")
     (auto simp: safe_print_def dest: waitpid_shorter [OF sym])

declare reap_loop.simps [simp del]

definition sigchld_handler :: "(int \<Rightarrow> string) \<Rightarrow> kernel \<Rightarrow> kernel" where
  "sigchld_handler strsignal k =
     (let saved_errno = k_errno k; (child_pid, k1) = reap_loop strsignal k;
          k2 = (if child_pid = -1 \<and> k_errno k1 \<noteq> ECHILD then safe_print (''waitpid_err'' @ ''\<newline>'') k1 else k1)
      in k2\<lparr>k_errno := saved_errno\<rparr>)"

text \<open>
  \<^verbatim>\<open>main\<close>: the signal is blocked while the handler is installed, then three children are
  forked; \<open>fork\<close> gives their pids. Child \<open>i\<close> raises \<^verbatim>\<open>SIGSEGV\<close> when it is the
  first one, else it exits with \<open>10 + i\<close>.
\<close>

definition child_end :: "nat \<Rightarrow> wstatus" where
  "child_end i = (if i = 0 then W_Signaled SIGSEGV else W_Exited (10 + int i))"

fun fork_children :: "(nat \<Rightarrow> int) \<Rightarrow> nat list \<Rightarrow> kernel \<Rightarrow> kernel c_res" where
  "fork_children fork [] k = Inr k"
| "fork_children fork (i # is) k =
     (if fork i = -1 then Inl Exit_Failure
      else fork_children fork is (k\<lparr>k_children := k_children k @ [(fork i, Running)]\<rparr>))"

definition nbw_main :: "bool \<Rightarrow> bool \<Rightarrow> bool \<Rightarrow> (nat \<Rightarrow> int) \<Rightarrow> kernel \<Rightarrow> kernel c_res" where
  "nbw_main block_ok sigaction_ok unblock_ok fork k =
     (if \<not> block_ok \<or> \<not> sigaction_ok \<or> \<not> unblock_ok then Inl Exit_Failure
      else fork_children fork [0..<3] k)"

text \<open>
  What can happen while the parent sleeps: a running child ends, which makes the signal pending,
  or the pending signal is delivered and the handler runs. \<open>k_ended\<close> lists who has ended.
\<close>

record run = kernel +
  k_ended :: "(int \<times> wstatus) list"

definition kernel_of :: "run \<Rightarrow> kernel" where
  "kernel_of r = \<lparr>k_children = k_children r, k_pending = k_pending r, k_errno = k_errno r,
                  k_stderr = k_stderr r\<rparr>"

definition child_exits :: "nat \<Rightarrow> wstatus \<Rightarrow> run \<Rightarrow> run" where
  "child_exits i st r =
     r\<lparr>k_children := (k_children r)[i := (fst (k_children r ! i), Zombie st)], k_pending := True,
       k_ended := k_ended r @ [(fst (k_children r ! i), st)]\<rparr>"

definition deliver_sigchld :: "(int \<Rightarrow> string) \<Rightarrow> run \<Rightarrow> run" where
  "deliver_sigchld strsignal r =
     (let k = sigchld_handler strsignal (kernel_of r)
      in r\<lparr>k_children := k_children k, k_pending := False, k_errno := k_errno k, k_stderr := k_stderr k\<rparr>)"

inductive run_step :: "(int \<Rightarrow> string) \<Rightarrow> run \<Rightarrow> run \<Rightarrow> bool" for strsignal where
  ends: "i < length (k_children r) \<Longrightarrow> snd (k_children r ! i) = Running \<Longrightarrow>
    run_step strsignal r (child_exits i st r)"
| delivered: "k_pending r \<Longrightarrow> run_step strsignal r (deliver_sigchld strsignal r)"

section \<open>Every child is reaped and reported once\<close>

definition zombie_msg :: "(int \<Rightarrow> string) \<Rightarrow> int \<times> child \<Rightarrow> string" where
  "zombie_msg strsignal c = child_msg strsignal (fst c) (child_status (snd c))"

lemma filter_split_first:
  "\<forall>a \<in> set as. \<not> P a \<Longrightarrow> P y \<Longrightarrow> filter P (as @ y # bs) = y # filter P (as @ bs)"
  by (induction as) auto

text \<open>The loop takes every zombie there is, in the order of the table, and leaves the others.\<close>

lemma reap_loop_result:
  assumes "\<forall>c \<in> set (k_children k). 0 < fst c"
  shows "\<exists>p e. reap_loop strsignal k = (p, k\<lparr>k_children := filter (\<lambda>c. \<not> is_zombie c) (k_children k),
      k_stderr := k_stderr k @ map (zombie_msg strsignal) (filter is_zombie (k_children k)), k_errno := e\<rparr>) \<and>
    (p = -1 \<longrightarrow> e = ECHILD)"
  using assms
proof (induction strsignal k rule: reap_loop.induct)
  case (1 strsignal k)
  show ?case
  proof (cases "take_first is_zombie (k_children k)")
    case None
    then have n: "\<forall>c \<in> set (k_children k). \<not> is_zombie c" by (simp add: take_first_None)
    then have f: "filter (\<lambda>c. \<not> is_zombie c) (k_children k) = k_children k"
      "filter is_zombie (k_children k) = []" by (simp_all add: filter_id_conv filter_empty_conv)
    show ?thesis
    proof (cases "k_children k = []")
      case True
      then show ?thesis
        by (subst reap_loop.simps) (auto simp: waitpid_nohang_def intro!: exI [of _ ECHILD])
    next
      case False
      with None f show ?thesis
        by (subst reap_loop.simps) (auto simp: waitpid_nohang_def intro!: exI [of _ "k_errno k"])
    qed
  next
    case (Some r)
    obtain pid c rest where r: "r = ((pid, c), rest)" by (metis prod.collapse)
    from take_first_Some [OF Some [unfolded r]] obtain as bs where
      s: "k_children k = as @ (pid, c) # bs" "rest = as @ bs" "is_zombie (pid, c)" "\<forall>a \<in> set as. \<not> is_zombie a"
      by blast
    let ?k1 = "safe_print (child_msg strsignal pid (child_status c)) (k\<lparr>k_children := rest\<rparr>)"
    have w: "waitpid_nohang k = (pid, child_status c, k\<lparr>k_children := rest\<rparr>)"
      using Some s(1) by (simp add: waitpid_nohang_def r)
    have pos: "0 < pid" using 1(2) s(1) by auto
    have "\<forall>c \<in> set (k_children ?k1). 0 < fst c" using 1(2) s by (auto simp: safe_print_def)
    from 1(1) [OF w [symmetric] refl pos this] obtain p e where
      "reap_loop strsignal ?k1 = (p, ?k1\<lparr>k_children := filter (\<lambda>c. \<not> is_zombie c) (k_children ?k1),
        k_stderr := k_stderr ?k1 @ map (zombie_msg strsignal) (filter is_zombie (k_children ?k1)), k_errno := e\<rparr>)"
      "p = -1 \<longrightarrow> e = ECHILD" by blast
    moreover have "filter is_zombie (k_children k) = (pid, c) # filter is_zombie rest"
      using s filter_split_first [of as is_zombie "(pid, c)" bs] by simp
    moreover have "filter (\<lambda>c. \<not> is_zombie c) (k_children k) = filter (\<lambda>c. \<not> is_zombie c) rest"
      using s by simp
    moreover have "reap_loop strsignal k = reap_loop strsignal ?k1"
      by (subst reap_loop.simps) (simp add: w pos)
    ultimately show ?thesis
      by (intro exI [of _ p] exI [of _ e]) (simp add: safe_print_def zombie_msg_def [of _ "(pid, c)"])
  qed
qed

lemma sigchld_handler_result:
  assumes "\<forall>c \<in> set (k_children k). 0 < fst c"
  shows "sigchld_handler strsignal k = k\<lparr>k_children := filter (\<lambda>c. \<not> is_zombie c) (k_children k),
      k_stderr := k_stderr k @ map (zombie_msg strsignal) (filter is_zombie (k_children k))\<rparr>"
proof -
  from reap_loop_result [OF assms, of strsignal] obtain p e where
    r: "reap_loop strsignal k = (p, k\<lparr>k_children := filter (\<lambda>c. \<not> is_zombie c) (k_children k),
      k_stderr := k_stderr k @ map (zombie_msg strsignal) (filter is_zombie (k_children k)), k_errno := e\<rparr>)"
    and p: "p = -1 \<longrightarrow> e = ECHILD" by blast
  show ?thesis
    using p by (auto simp: sigchld_handler_def r Let_def)
qed

lemma mset_filter_update:
  assumes "i < length xs" and "\<not> P (xs ! i)" and "P y"
  shows "mset (filter P (xs[i := y])) = add_mset y (mset (filter P xs))"
proof -
  have "filter_mset P (mset xs - {#xs ! i#}) = filter_mset P (mset xs)"
    using assms(2) by (simp add: filter_diff_mset)
  then show ?thesis
    using assms by (simp add: mset_filter [symmetric] mset_update del: mset_filter)
     (simp add: mset_update)
qed

definition run_inv :: "(int \<Rightarrow> string) \<Rightarrow> int \<Rightarrow> run \<Rightarrow> bool" where
  "run_inv strsignal errno r \<longleftrightarrow>
     (\<forall>c \<in> set (k_children r). 0 < fst c) \<and> k_errno r = errno \<and>
     ((\<exists>c \<in> set (k_children r). is_zombie c) \<longrightarrow> k_pending r) \<and>
     mset (map (\<lambda>(pid, st). child_msg strsignal pid st) (k_ended r)) =
       mset (k_stderr r) + mset (map (zombie_msg strsignal) (filter is_zombie (k_children r)))"

lemma run_step_inv:
  assumes "run_step strsignal r t" and "run_inv strsignal errno r"
  shows "run_inv strsignal errno t"
  using assms(1)
proof (cases rule: run_step.cases)
  case (ends i st)
  note 1 = this
  let ?y = "(fst (k_children r ! i), Zombie st)"
  have "\<not> is_zombie (k_children r ! i)" "is_zombie ?y" using 1 by (simp_all add: is_zombie_def)
  note u = mset_filter_update [of i "k_children r" is_zombie ?y, OF 1(2) this]
  have pos: "\<forall>c \<in> set ((k_children r)[i := ?y]). 0 < fst c"
    using assms(2) 1(2) by (auto simp: run_inv_def dest!: set_update_subset_insert [THEN subsetD])
  show ?thesis
    using assms(2) pos u
    by (simp add: run_inv_def 1(1) child_exits_def image_mset.comp mset_map [symmetric] del: mset_map)
       (simp add: zombie_msg_def child_status_def)
next
  case delivered
  note 2 = this
  have pos: "\<forall>c \<in> set (k_children (kernel_of r)). 0 < fst c"
    using assms(2) by (simp add: run_inv_def kernel_of_def)
  have t: "t = r\<lparr>k_children := filter (\<lambda>c. \<not> is_zombie c) (k_children r), k_pending := False,
      k_stderr := k_stderr r @ map (zombie_msg strsignal) (filter is_zombie (k_children r))\<rparr>"
    using sigchld_handler_result [OF pos, of strsignal]
    by (simp add: 2(1) deliver_sigchld_def Let_def) (simp add: kernel_of_def)
  show ?thesis using assms(2) by (auto simp: run_inv_def t)
qed

lemma run_inv_reach:
  "rtranclp (run_step strsignal) r t \<Longrightarrow> run_inv strsignal errno r \<Longrightarrow> run_inv strsignal errno t"
  by (induction rule: rtranclp.induct) (auto intro: run_step_inv)

lemma fork_children_result:
  "fork_children fork is k = Inr k' \<Longrightarrow>
   k' = k\<lparr>k_children := k_children k @ map (\<lambda>i. (fork i, Running)) is\<rparr> \<and> (\<forall>i \<in> set is. fork i \<noteq> -1)"
proof (induction "is" arbitrary: k)
  case (Cons i js)
  from Cons.prems have "fork i \<noteq> -1"
    and "fork_children fork js (k\<lparr>k_children := k_children k @ [(fork i, Running)]\<rparr>) = Inr k'"
    by (simp_all split: if_splits)
  with Cons.IH [OF this(2)] show ?case by simp
qed simp

definition start_run :: "kernel \<Rightarrow> run" where
  "start_run k = \<lparr>k_children = k_children k, k_pending = k_pending k, k_errno = k_errno k,
                  k_stderr = k_stderr k, k_ended = []\<rparr>"

definition empty_kernel :: kernel where
  "empty_kernel = \<lparr>k_children = [], k_pending = False, k_errno = 0, k_stderr = []\<rparr>"

text \<open>C10: However the ends of the children and the deliveries of \<^verbatim>\<open>SIGCHLD\<close> interleave,
  and though several ends may share one delivery: whenever no signal is pending, no ended child is
  left in the table, every child that ended has been reported exactly once, with its pid and
  status, nothing else was printed, and \<^verbatim>\<open>errno\<close> is what it was.\<close>

theorem all_children_reaped:
  assumes "nbw_main block_ok sigaction_ok unblock_ok fork empty_kernel = Inr k"
    and "\<forall>i. fork i = -1 \<or> 0 < fork i"
    and "rtranclp (run_step strsignal) (start_run k) r" and "\<not> k_pending r"
  shows "\<not> (\<exists>c \<in> set (k_children r). is_zombie c) \<and> k_errno r = k_errno empty_kernel \<and>
    mset (k_stderr r) = mset (map (\<lambda>(pid, st). child_msg strsignal pid st) (k_ended r))"
proof -
  from assms(1) have "fork_children fork [0..<3] empty_kernel = Inr k"
    by (simp add: nbw_main_def split: if_splits)
  from fork_children_result [OF this] assms(2)
  have "run_inv strsignal (k_errno empty_kernel) (start_run k)"
    by (auto simp: run_inv_def start_run_def empty_kernel_def is_zombie_def)
  from run_inv_reach [OF assms(3) this] assms(4) show ?thesis
    by (auto simp: run_inv_def filter_empty_conv)
qed

definition family :: kernel where
  "family = empty_kernel\<lparr>k_children := [(101, Running), (102, Running), (103, Running)]\<rparr>"

definition after_two_ends :: run where
  "after_two_ends = deliver_sigchld (\<lambda>_. ''Segmentation fault'')
     (child_exits 1 (child_end 1) (child_exits 0 (child_end 0) (start_run family)))"

theorem all_children_reaped_witness:
  "nbw_main True True True (\<lambda>i. 101 + int i) empty_kernel = Inr family \<and>
   k_stderr after_two_ends =
     [''Child 101 terminated by signal 11 (Segmentation fault)'' @ ''\<newline>'',
      ''Child 102 terminated normally with exit status 11'' @ ''\<newline>''] \<and>
   mset (k_stderr after_two_ends) =
     mset (map (\<lambda>(pid, st). child_msg (\<lambda>_. ''Segmentation fault'') pid st) (k_ended after_two_ends))"
proof -
  let ?s1 = "child_exits 0 (child_end 0) (start_run family)"
  let ?s2 = "child_exits 1 (child_end 1) ?s1"
  have m: "nbw_main True True True (\<lambda>i. 101 + int i) empty_kernel = Inr family" by code_simp
  have f: "\<forall>i. 101 + int i = -1 \<or> 0 < 101 + int i" by auto
  have "run_step (\<lambda>_. ''Segmentation fault'') (start_run family) ?s1"
    by (rule ends) (simp_all add: start_run_def family_def)
  moreover have "run_step (\<lambda>_. ''Segmentation fault'') ?s1 ?s2"
    by (rule ends) (simp_all add: start_run_def family_def child_exits_def)
  moreover have "run_step (\<lambda>_. ''Segmentation fault'') ?s2 after_two_ends"
    unfolding after_two_ends_def by (rule delivered) (simp add: child_exits_def)
  ultimately have r: "rtranclp (run_step (\<lambda>_. ''Segmentation fault'')) (start_run family) after_two_ends"
    by (meson r_into_rtranclp rtranclp_trans)
  have n: "\<not> k_pending after_two_ends" by code_simp
  have "k_stderr after_two_ends =
     [''Child 101 terminated by signal 11 (Segmentation fault)'' @ ''\<newline>'',
      ''Child 102 terminated normally with exit status 11'' @ ''\<newline>'']" by code_simp
  with all_children_reaped [OF m f r n] m show ?thesis by blast
qed

end
