(* ===== verification/Prime.thy ===== *)
theory Prime
  imports Cstdio
begin

text \<open>
  \<^verbatim>\<open>C_Compilation_and_Symbol_Analysis/prime.c\<close> and \<^verbatim>\<open>main.c\<close>: trial division by odd
  numbers with the bound \<^verbatim>\<open>mx\<close>, and the program that reads a number and reports. The
  remainder is taken of positive numbers only, where C's \<^verbatim>\<open>%\<close> and \<open>mod\<close> agree.
\<close>

section \<open>Trial division\<close>

definition mx :: int where "mx = 1000"

text \<open>\<^verbatim>\<open>for(int i = 3; i * i <= num; i += 2)\<close>\<close>

function prime_loop :: "int \<Rightarrow> int \<Rightarrow> int" where
  "prime_loop num i =
     (if 0 < i \<and> i * i \<le> num then
        if num mod i = 0 then 0 else prime_loop num (i + 2)
      else 1)"
  by pat_completeness auto
termination
proof (relation "measure (\<lambda>(num, i). nat (num + 1 - i))")
  fix num i :: int
  assume a: "0 < i \<and> i * i \<le> num"
  then have "i * 1 \<le> i * i" by (intro mult_left_mono) auto
  with a have "i \<le> num" by linarith
  with a show "((num, i + 2), num, i) \<in> measure (\<lambda>(num, i). nat (num + 1 - i))" by auto
qed simp

declare prime_loop.simps [simp del]

definition is_prime :: "int \<Rightarrow> int" where
  "is_prime num =
     (if num \<le> 1 \<or> num > mx then 0
      else if num = 2 then 1
      else if num mod 2 = 0 then 0
      else prime_loop num 3)"

datatype prime_out = Is_Prime int | Not_Prime int | Uninitialised

text \<open>
  \<^verbatim>\<open>scanf\<close> leaves \<^verbatim>\<open>num\<close> unset when the input is no number.
\<close>

definition prime_main :: "string \<Rightarrow> prime_out" where
  "prime_main stdin =
     (case fst (scan_d stdin) of
        None \<Rightarrow> Uninitialised
      | Some num \<Rightarrow> if is_prime num \<noteq> 0 then Is_Prime num else Not_Prime num)"

section \<open>The numbers found are the primes up to the bound\<close>

definition prime_number :: "int \<Rightarrow> bool" where
  "prime_number p \<longleftrightarrow> 1 < p \<and> (\<forall>d. 0 < d \<longrightarrow> d dvd p \<longrightarrow> d = 1 \<or> d = p)"

lemma prime_loop_01: "prime_loop num i = 0 \<or> prime_loop num i = 1"
  by (induction num i rule: prime_loop.induct) (subst (1 2) prime_loop.simps, simp)

text \<open>The loop stops at the first odd divisor whose square is at most the number.\<close>

lemma prime_loop_iff:
  assumes "0 < i" and "odd i"
  shows "prime_loop num i = 1 \<longleftrightarrow> (\<forall>d. i \<le> d \<and> odd d \<and> d * d \<le> num \<longrightarrow> \<not> d dvd num)"
  using assms
proof (induction num i rule: prime_loop.induct)
  case (1 num i)
  show ?case
  proof (cases "i * i \<le> num")
    case False
    have "num < d * d" if "i \<le> d" for d
      using False mult_mono [OF that that] 1(2) that by linarith
    with False show ?thesis by (subst prime_loop.simps) (auto simp: not_le [symmetric])
  next
    case True
    show ?thesis
    proof (cases "i dvd num")
      case d: True
      with True 1(2,3) show ?thesis
        by (subst prime_loop.simps) (auto simp: dvd_eq_mod_eq_0)
    next
      case d: False
      then have m: "num mod i \<noteq> 0" by (simp add: dvd_eq_mod_eq_0)
      have IH: "prime_loop num (i + 2) = 1 \<longleftrightarrow>
          (\<forall>d. i + 2 \<le> d \<and> odd d \<and> d * d \<le> num \<longrightarrow> \<not> d dvd num)"
        using 1 True m by auto
      have next_odd: "i \<le> d \<and> odd d \<longleftrightarrow> d = i \<or> (i + 2 \<le> d \<and> odd d)" for d
        using 1(3) by (cases "d = i"; cases "d = i + 1") auto
      have "(\<forall>d. i + 2 \<le> d \<and> odd d \<and> d * d \<le> num \<longrightarrow> \<not> d dvd num) \<longleftrightarrow>
          (\<forall>d. i \<le> d \<and> odd d \<and> d * d \<le> num \<longrightarrow> \<not> d dvd num)"
        using d by (metis next_odd)
      moreover have "prime_loop num i = prime_loop num (i + 2)"
        using True m 1(2) by (subst prime_loop.simps) simp
      ultimately show ?thesis using IH by simp
    qed
  qed
qed

lemma odd_prime_iff:
  assumes "2 < num" and "odd num"
  shows "prime_number num \<longleftrightarrow> (\<forall>d. 3 \<le> d \<and> odd d \<and> d * d \<le> num \<longrightarrow> \<not> d dvd num)"
proof
  assume p: "prime_number num"
  show "\<forall>d. 3 \<le> d \<and> odd d \<and> d * d \<le> num \<longrightarrow> \<not> d dvd num"
  proof (intro allI impI notI)
    fix d :: int assume d: "3 \<le> d \<and> odd d \<and> d * d \<le> num" and v: "d dvd num"
    have "0 < d" using d by simp
    with p v have "d = 1 \<or> d = num" unfolding prime_number_def by blast
    moreover have "d * 3 \<le> d * d" using d by (intro mult_left_mono) auto
    ultimately show False using d by auto
  qed
next
  assume n: "\<forall>d. 3 \<le> d \<and> odd d \<and> d * d \<le> num \<longrightarrow> \<not> d dvd num"
  have no: "d = 1" if "0 < d" "d dvd num" "d * d \<le> num" for d
  proof (rule ccontr)
    assume "d \<noteq> 1"
    moreover have "odd d" using that(2) assms(2) by (meson dvd_trans)
    moreover have "d \<noteq> 2" using \<open>odd d\<close> by auto
    ultimately have "3 \<le> d" using that(1) by linarith
    with n that \<open>odd d\<close> show False by blast
  qed
  show "prime_number num"
    unfolding prime_number_def
  proof (intro conjI allI impI)
    fix d :: int assume d: "0 < d" and v: "d dvd num"
    then obtain e where e: "num = d * e" by (auto elim: dvdE)
    then have e0: "0 < e" using d assms(1) by (metis less_trans zero_less_mult_pos zero_less_numeral)
    have ev: "e dvd num" using e by simp
    show "d = 1 \<or> d = num"
    proof (cases "d \<le> e")
      case True
      then have "d * d \<le> num" using d e by (simp add: mult_left_mono)
      with no d v show ?thesis by blast
    next
      case False
      then have "e * e \<le> num" using e0 e by (simp add: mult_right_mono)
      with no e0 ev have "e = 1" by blast
      with e show ?thesis by simp
    qed
  qed (use assms in simp)
qed

text \<open>C36: \<^verbatim>\<open>is_prime\<close> answers 1 exactly for the prime numbers up to \<^verbatim>\<open>mx\<close>, and 0 for
  every other number; in particular a prime above 1000 is reported as \<^verbatim>\<open>not a prime\<close>.\<close>

theorem is_prime_correct: "is_prime num = (if prime_number num \<and> num \<le> mx then 1 else 0)"
proof -
  consider "num \<le> 1 \<or> mx < num" | "num = 2" | "2 < num" "num \<le> mx" "even num"
    | "2 < num" "num \<le> mx" "odd num"
    by (cases "num \<le> 1"; cases "num = 2"; cases "even num"; fastforce)
  then show ?thesis
  proof cases
    case 1
    then show ?thesis by (auto simp: is_prime_def prime_number_def)
  next
    case 2
    have "prime_number 2"
      unfolding prime_number_def by (auto dest: zdvd_imp_le)
    with 2 show ?thesis by (simp add: is_prime_def mx_def)
  next
    case 3
    then have "0 < (2 :: int) \<and> 2 dvd num \<and> \<not> ((2 :: int) = 1 \<or> 2 = num)" by auto
    then have "\<not> prime_number num" unfolding prime_number_def by blast
    with 3 show ?thesis by (simp add: is_prime_def even_iff_mod_2_eq_zero)
  next
    case 4
    then have "is_prime num = prime_loop num 3"
      by (simp add: is_prime_def even_iff_mod_2_eq_zero)
    with 4 show ?thesis
      using prime_loop_01 [of num 3] prime_loop_iff [of 3 num] odd_prime_iff [of num] by auto
  qed
qed

end
