(* ===== verification/Spec2Isabelle.thy ===== *)
theory Spec2Isabelle
  imports Shop_System Lq_Shell Ls Fdisk Elf Logger Signals Prime
begin

text \<open>
  A model of the programs of the repository, and what makes them correct.

  \<^bold>\<open>The programs.\<close> The repository holds independent C programs. Three of them form one
  system: the shop of \<^verbatim>\<open>IPC/\<close>, whose server, customers and inventory manager share a
  memory segment, a semaphore and a message queue. The logger of
  \<^verbatim>\<open>Signals/real-time_logger/\<close> and its command \<^verbatim>\<open>set_log_level\<close> talk by real-time
  signals, as \<^verbatim>\<open>Signals/snd.c\<close> and \<^verbatim>\<open>Signals/rcv.c\<close> do. The others stand alone:
  \<^verbatim>\<open>Signals/Non-Blocking_Wait\<close>, the ELF parser, \<^verbatim>\<open>fdisk -l\<close>, \<^verbatim>\<open>ls\<close>, the shell
  \<^verbatim>\<open>LQ_SHELL\<close> (main program and commands) and the prime test.

  \<^bold>\<open>The theories.\<close> Names follow the C functions; a prefix is added where several programs use
  one name (\<^verbatim>\<open>sem_lock\<close> is \<open>shop_sem_lock\<close> and \<open>mgr_sem_lock\<close>).

  \<^item> \<open>Prelude\<close>: results with errors (\<open>c_res\<close>: \<open>Inl\<close> an error of \<open>c_err\<close>, \<open>Inr\<close> a value, with
    \<open>c_bind\<close>), 32-bit wrap-around (\<open>wrap32\<close>), NUL-terminated buffers (\<open>cstr\<close>), \<open>strcmp\<close>,
    \<open>strtok\<close>, taking the first element that fits (\<open>take_first\<close>).
  \<^item> \<open>Cstdio\<close>: what the programs use of \<^verbatim>\<open>printf\<close>, \<^verbatim>\<open>scanf\<close> and \<^verbatim>\<open>atoi\<close>, with the
    round trip of printed numbers. \<open>Bytes\<close>: little-endian loads and stores, and the interface
    \<open>packed_struct\<close> of a struct read from bytes.
  \<^item> \<open>Shop_Common\<close>: \<^verbatim>\<open>shop_common.h\<close>, the search for an item all three programs share,
    and three interfaces: \<open>keyed_store\<close> and \<open>stock_store\<close> (what a lookup by name and an
    update of the item found do to the map from names to items), interpreted on the
    segment's array, and \<open>sysv_queue\<close> (what sending and receiving by type do to the messages
    of each type), interpreted on the message queue.
  \<^item> \<open>Shop_Process\<close>, \<open>Customer_Process\<close>, \<open>Inventory_Manager\<close>: the three programs over one
    \<open>world\<close> (segment, semaphore, queue), which their \<^verbatim>\<open>main\<close> makes or finds by key among the
    kernel's objects (\<open>ipc\<close>). \<open>Shop_System\<close>: the shop and the manager as steps that
    interleave, with the invariant of the semaphore, and the shop's loop and session among its
    clients (\<open>client_act\<close>), which are the definitions of the customer and the manager.
  \<^item> \<open>Logger\<close>: \<^verbatim>\<open>logger.c\<close>, its \<^verbatim>\<open>main.c\<close> and \<^verbatim>\<open>set_log_level.c\<close>. \<open>Signals\<close>:
    \<^verbatim>\<open>snd.c\<close>, \<^verbatim>\<open>rcv.c\<close> and \<^verbatim>\<open>non_blocking_wait.c\<close> over a kernel of children.
  \<^item> \<open>Elf\<close>: \<^verbatim>\<open>elf.c\<close>. \<open>Fdisk\<close>: \<^verbatim>\<open>fdskL.c\<close> over the bytes of a disk. Both interpret
    \<open>packed_struct\<close> on their structs.
  \<^item> \<open>Ls\<close>: \<^verbatim>\<open>my_ls.c\<close>. \<open>Prime\<close>: \<^verbatim>\<open>prime.c\<close> and its \<^verbatim>\<open>main.c\<close>.
  \<^item> \<open>Shell_Commands\<close>: \<^verbatim>\<open>commands.c\<close> over a map of paths to files. \<open>Lq_Shell\<close>:
    \<^verbatim>\<open>lqshell_optm.c\<close>.

  \<^bold>\<open>What is shown.\<close> For the shop: the order handler refines the sale on the map from names to
  stock and is a run of the interleaving steps, in which no update is lost and from which both
  processes can always finish; among any number of customers and uninterrupted managers its loop
  keeps every stock between zero and what there was plus what was restocked, and a session ends
  by removing exactly its own IPC objects; the manager keeps the shared memory well formed over
  any input and signal, and restocking adds what was typed; the checkout of a lone customer sells
  the whole cart or fails; carts stay well formed over any input. Against that stand the runs in
  which it goes wrong: a semaphore call that a signal interrupts, replies taken by another customer, a queue too small
  for notification and reply, checkouts that fail half way. For the logger: the log is the
  reference transcript of calls and signals. For the wait loop: every ended child is reported
  exactly once in every interleaving. For the disk and ELF programs: the rows and the report are
  those of the bytes, whatever surrounds them, and the disks on which the walk over boot records
  never ends. For \<^verbatim>\<open>ls\<close>: the listing is complete and ordered by the options, columns show
  every file once, options and mode letters are exact. For the shell: words, redirections and
  pipes of a line, what \<^verbatim>\<open>type\<close> answers against what is started, reading
  \<^verbatim>\<open>/proc/meminfo\<close> through a buffer, copying and moving, and when a session ends without an
  access outside its objects, which the cast at its \<^verbatim>\<open>getline\<close> leaves to chance.

  \<^bold>\<open>Bounds and fuel.\<close> Loops that end for a reason in the code are total functions with a
  measure (the words of a line, the cart, the children, the lines of a buffer). The walk over
  boot records may not end and is a \<open>partial_function\<close>: \<open>None\<close> is not returning. Loops that
  end by a signal or a menu choice only take the turns to make (their number, or a list with
  what happens in each), and what is shown holds for every such list. System calls that can fail
  or return less than asked take their
  results from a list or a function that is a parameter; a list that is used up stands for a
  call that does not return (\<open>Blocked\<close>).

  \<^bold>\<open>Parameters.\<close> Floating point numbers are a type with operations (\<open>fp\<close>) about which nothing is
  assumed; the uninitialised buffer \<^verbatim>\<open>ls\<close> splits, the word in memory behind the shell's
  \<^verbatim>\<open>input_size\<close> (\<open>None\<close> when there is none, as C has it), whether \<^verbatim>\<open>rename\<close> is allowed, \<^verbatim>\<open>ftok\<close>,
  \<^verbatim>\<open>uuid_unparse\<close>, \<^verbatim>\<open>strsignal\<close>, \<^verbatim>\<open>strftime\<close>, the user database and
  \<^verbatim>\<open>qsort\<close> are arguments. Of \<^verbatim>\<open>qsort\<close> it is assumed that it permutes, and sorts when the
  comparison is a consistent order; an insertion sort shows that this can be met.

  \<^bold>\<open>Not modelled.\<close> Texts of menus and the padding of tables in the shop and \<^verbatim>\<open>fdisk\<close> (a line is
  the tuple of its values); \<^verbatim>\<open>SEM_UNDO\<close>, which acts when a process exits (a
  manager that a signal has made go on without the semaphore leaves it one too high until then); the mutex that orders
  the output of the manager's threads; failing \<^verbatim>\<open>malloc\<close>, \<^verbatim>\<open>fork\<close> and \<^verbatim>\<open>pipe\<close>; the
  programs the shell starts.
\<close>

end
